theory Spec2Isabelle
  imports Main "HOL-Library.Word"
begin

section \<open>Buffers, thrown values and scalars\<close>

text \<open>
  A Node \<open>Buffer\<close> is a list of bytes. Reading past the end of a buffer gives
  \<open>undefined\<close> in JavaScript, which is \<open>None\<close> here. Everything the code throws is a
  value of type \<open>error\<close>: \<open>Error msg\<close> for \<open>throw new Error(msg)\<close> and \<open>TypeError\<close> for
  the exception the runtime raises when a property of \<open>undefined\<close> or \<open>null\<close> is read.
\<close>

type_synonym byte = "8 word"
type_synonym buffer = "byte list"

datatype error = Error string | TypeError

definition buf_at :: "buffer \<Rightarrow> nat \<Rightarrow> byte option" where
  "buf_at buf i = (if i < length buf then Some (buf ! i) else None)"

definition buf_slice :: "buffer \<Rightarrow> nat \<Rightarrow> nat \<Rightarrow> buffer" where
  "buf_slice buf a b = take (b - a) (drop a buf)"

definition buf_slice_from :: "buffer \<Rightarrow> nat \<Rightarrow> buffer" where
  "buf_slice_from buf a = drop a buf"

text \<open>
  Modelled from the spec: the scalar collaborator \<open>BN\<close> (lib/bn.js is not among the
  sources). A scalar is an integer; its canonical byte form is big-endian, padded with
  zero bytes on the left up to the requested size, and little-endian is accepted on the
  way in.
\<close>

definition bn_fromBuffer :: "buffer \<Rightarrow> int" where
  "bn_fromBuffer buf = foldl (\<lambda>a b. a * 256 + uint b) 0 buf"

datatype endianness = Big | Little

definition bn_fromBuffer_endian :: "buffer \<Rightarrow> endianness option \<Rightarrow> int" where
  "bn_fromBuffer_endian buf endian =
     (if endian = Some Little then bn_fromBuffer (rev buf) else bn_fromBuffer buf)"

fun nat_bytes :: "nat \<Rightarrow> buffer" where
  "nat_bytes n = (if n = 0 then [] else nat_bytes (n div 256) @ [of_nat (n mod 256)])"

declare nat_bytes.simps [simp del]

definition bn_toBuffer_size :: "nat \<Rightarrow> int \<Rightarrow> buffer" where
  "bn_toBuffer_size sz x =
     (let b = nat_bytes (nat x) in replicate (sz - length b) 0 @ b)"

definition hexdigit :: "nat \<Rightarrow> char" where
  "hexdigit d = (''0123456789abcdef'' ! (d mod 16))"

definition toString_hex :: "buffer \<Rightarrow> string" where
  "toString_hex buf = concat (map (\<lambda>b. [hexdigit (unat b div 16), hexdigit (unat b mod 16)]) buf)"

section \<open>Curve points\<close>

text \<open>
  Modelled from the spec: the \<open>Point\<close> collaborator (lib/point.js is not among the
  sources) is an affine point with two coordinates, or the point at infinity. Reading a
  coordinate of the point at infinity dereferences \<open>null\<close>. The operations of the curve
  reach the code through its injected dependencies, the record \<open>deps\<close> below.
\<close>

datatype point = Infinity | Affine int int

definition isInfinity :: "point \<Rightarrow> bool" where
  "isInfinity p = (p = Infinity)"

definition getX :: "point \<Rightarrow> error + int" where
  "getX p = (case p of Infinity \<Rightarrow> Inl TypeError | Affine x y \<Rightarrow> Inr x)"

definition getY :: "point \<Rightarrow> error + int" where
  "getY p = (case p of Infinity \<Rightarrow> Inl TypeError | Affine x y \<Rightarrow> Inr y)"

definition point_eq :: "point \<Rightarrow> point \<Rightarrow> bool" where
  "point_eq p q = (p = q)"

text \<open>
  The dependencies \<open>inject (deps)\<close> hands to the modules: \<open>Hash.sha256hmac (data, key)\<close>,
  \<open>Point.getN ()\<close>, \<open>Point.getG ()\<close>, the constructor \<open>Point (x, y)\<close>, \<open>Point.fromX (odd, x)\<close>
  (which throws when no point has that \<open>x\<close>), \<open>p.mul (k)\<close>, \<open>p.add (q)\<close>,
  \<open>p.mulAdd (u1, q, u2)\<close>, \<open>p.validate ()\<close> (which throws off the curve) and \<open>a.invm (n)\<close>.
\<close>

record deps =
  sha256hmac :: "buffer \<Rightarrow> buffer \<Rightarrow> buffer"
  getN :: int
  getG :: point
  Point_new :: "int \<Rightarrow> int \<Rightarrow> point"
  Point_fromX :: "bool \<Rightarrow> int \<Rightarrow> error + point"
  mul :: "point \<Rightarrow> int \<Rightarrow> point"
  add :: "point \<Rightarrow> point \<Rightarrow> point"
  mulAdd :: "point \<Rightarrow> int \<Rightarrow> point \<Rightarrow> int \<Rightarrow> point"
  point_validate :: "point \<Rightarrow> error + unit"
  invm :: "int \<Rightarrow> int \<Rightarrow> int"

section \<open>Public keys\<close>

record pubkey =
  pk_point :: "point option"
  pk_compressed :: "bool option"

definition Pubkey_new :: pubkey where
  "Pubkey_new = \<lparr>pk_point = None, pk_compressed = None\<rparr>"

definition pk_fromX :: "deps \<Rightarrow> pubkey \<Rightarrow> bool \<Rightarrow> int \<Rightarrow> error + pubkey" where
  "pk_fromX dp this isodd x =
     (case Point_fromX dp isodd x of
        Inl e \<Rightarrow> Inl e
      | Inr p \<Rightarrow> Inr (this\<lparr>pk_point := Some p\<rparr>))"

text \<open>
  \<open>fromDER (buf, strict)\<close>: the argument \<open>strict\<close> is \<open>None\<close> when the caller leaves it
  out. The first statement replaces it: \<open>true\<close> when it was \<open>undefined\<close>, \<open>false\<close> otherwise.
\<close>

definition fromDER :: "deps \<Rightarrow> pubkey \<Rightarrow> buffer \<Rightarrow> bool option \<Rightarrow> error + pubkey" where
  "fromDER dp this buf strict_arg =
     (let strict = (if strict_arg = None then True else False) in
      if buf_at buf 0 = Some 0x04 \<or>
         (\<not> strict \<and> (buf_at buf 0 = Some 0x06 \<or> buf_at buf 0 = Some 0x07)) then
        (let xbuf = buf_slice buf 1 33; ybuf = buf_slice buf 33 65 in
         if length xbuf \<noteq> 32 \<or> length ybuf \<noteq> 32 \<or> length buf \<noteq> 65
         then Inl (Error ''Length of x and y must be 32 bytes'')
         else Inr (this\<lparr>pk_point := Some (Point_new dp (bn_fromBuffer xbuf) (bn_fromBuffer ybuf)),
                        pk_compressed := Some False\<rparr>))
      else if buf_at buf 0 = Some 0x03 then
        (case pk_fromX dp this True (bn_fromBuffer (buf_slice_from buf 1)) of
           Inl e \<Rightarrow> Inl e
         | Inr t \<Rightarrow> Inr (t\<lparr>pk_compressed := Some True\<rparr>))
      else if buf_at buf 0 = Some 0x02 then
        (case pk_fromX dp this False (bn_fromBuffer (buf_slice_from buf 1)) of
           Inl e \<Rightarrow> Inl e
         | Inr t \<Rightarrow> Inr (t\<lparr>pk_compressed := Some True\<rparr>))
      else Inl (Error ''Invalid DER format pubkey''))"

definition fromBuffer :: "deps \<Rightarrow> pubkey \<Rightarrow> buffer \<Rightarrow> bool option \<Rightarrow> error + pubkey" where
  "fromBuffer dp this buf strict_arg = fromDER dp this buf strict_arg"

text \<open>
  \<open>toDER (compressed)\<close>: \<open>None\<close> is an argument left out; the flag of the key stands in,
  and a flag that is still not a boolean is refused. \<open>this.point\<close> unset, or at infinity,
  makes the coordinate reads throw.
\<close>

definition toDER :: "pubkey \<Rightarrow> bool option \<Rightarrow> error + buffer" where
  "toDER this compressed_arg =
     (let compressed = (if compressed_arg = None then pk_compressed this else compressed_arg) in
      case compressed of
        None \<Rightarrow> Inl (Error ''Must specify whether the public key is compressed or not (true or false)'')
      | Some c \<Rightarrow>
         (case pk_point this of
            None \<Rightarrow> Inl TypeError
          | Some p \<Rightarrow>
             (case getX p of
                Inl e \<Rightarrow> Inl e
              | Inr x \<Rightarrow>
                 (case getY p of
                    Inl e \<Rightarrow> Inl e
                  | Inr y \<Rightarrow>
                     (let xbuf = bn_toBuffer_size 32 x; ybuf = bn_toBuffer_size 32 y in
                      if \<not> c then Inr ([0x04] @ xbuf @ ybuf)
                      else
                        (case buf_at ybuf (length ybuf - 1) of
                           None \<Rightarrow> Inr ([0x02] @ xbuf)
                         | Some l \<Rightarrow>
                            if unat l mod 2 \<noteq> 0 then Inr ([0x03] @ xbuf)
                            else Inr ([0x02] @ xbuf)))))))"

definition toBuffer :: "pubkey \<Rightarrow> error + buffer" where
  "toBuffer this =
     (let compressed = (if pk_compressed this = None then Some True else pk_compressed this)
      in toDER this compressed)"

definition toString :: "pubkey \<Rightarrow> error + string" where
  "toString this =
     (let compressed = (if pk_compressed this = None then Some True else pk_compressed this)
      in case toDER this compressed of Inl e \<Rightarrow> Inl e | Inr b \<Rightarrow> Inr (toString_hex b))"

text \<open>
  \<open>toFastBuffer\<close> writes \<open>Number (compressed)\<close> as one byte and then the uncompressed DER
  form. \<open>fromFastBuffer\<close> drops the first byte, decodes the rest, and then reads the
  flag from \<open>buf[0]\<close> of the buffer it has just shortened.
\<close>

definition toFastBuffer :: "pubkey \<Rightarrow> error + buffer" where
  "toFastBuffer this =
     (if pk_point this = None then Inr []
      else
        (let compressed = (if pk_compressed this = None then True else the (pk_compressed this)) in
         case toDER this (Some False) of
           Inl e \<Rightarrow> Inl e
         | Inr der \<Rightarrow> Inr ([if compressed then 1 else 0] @ der)))"

definition fromFastBuffer :: "deps \<Rightarrow> pubkey \<Rightarrow> buffer \<Rightarrow> error + pubkey" where
  "fromFastBuffer dp this buf0 =
     (if length buf0 = 0 then Inr this
      else
        (let buf = buf_slice_from buf0 1 in
         case fromDER dp this buf None of
           Inl e \<Rightarrow> Inl e
         | Inr t \<Rightarrow>
            Inr (t\<lparr>pk_compressed :=
                      Some (case buf_at buf 0 of None \<Rightarrow> False | Some b \<Rightarrow> b \<noteq> 0)\<rparr>)))"

definition isCompressedOrUncompressed :: "buffer \<Rightarrow> bool" where
  "isCompressedOrUncompressed buf =
     (if length buf < 33 then False
      else if buf_at buf 0 = Some 0x04 then (if length buf \<noteq> 65 then False else True)
      else if buf_at buf 0 = Some 0x02 \<or> buf_at buf 0 = Some 0x03
        then (if length buf \<noteq> 33 then False else True)
      else False)"

definition pk_validate :: "deps \<Rightarrow> pubkey \<Rightarrow> error + pubkey" where
  "pk_validate dp this =
     (case pk_point this of
        None \<Rightarrow> Inl TypeError
      | Some p \<Rightarrow>
         if isInfinity p then Inl (Error ''point: Point cannot be equal to Infinity'')
         else if point_eq p (Point_new dp 0 0) then Inl (Error ''point: Point cannot be equal to 0, 0'')
         else (case point_validate dp p of Inl e \<Rightarrow> Inl e | Inr u \<Rightarrow> Inr this))"

section \<open>Transaction verifier\<close>

text \<open>
  The verifier reads these fields of a transaction: the declared input and output
  counts (\<open>txinsvi.toNumber ()\<close>, \<open>txoutsvi.toNumber ()\<close>), the inputs and the outputs.
  A script is kept as its bytes (\<open>script.toBuffer ()\<close>).
\<close>

record txin =
  txhashbuf :: buffer
  txoutnum :: nat
  txin_script :: buffer
  seqnum :: nat

record txout =
  valuebn :: int
  txout_script :: buffer

record tx =
  version :: nat
  txinsvi :: nat
  txins :: "txin list"
  txoutsvi :: nat
  txouts :: "txout list"
  nlocktime :: nat

text \<open>
  The injected collaborators of the verifier: \<open>Block.MAX_BLOCK_SIZE\<close>, \<open>Tx.MAX_MONEY\<close>,
  the methods \<open>tx.toBuffer ()\<close>, \<open>tx.isCoinbase ()\<close> and \<open>txin.hasNullInput ()\<close>, and
  \<open>Interp ().verify (scriptSig, scriptPubkey, tx, nin, flags)\<close>.
\<close>

record txv_deps =
  MAX_BLOCK_SIZE :: nat
  MAX_MONEY :: int
  tx_toBuffer :: "tx \<Rightarrow> buffer"
  isCoinbase :: "tx \<Rightarrow> bool"
  hasNullInput :: "txin \<Rightarrow> bool"
  interp_verify :: "buffer \<Rightarrow> buffer \<Rightarrow> tx \<Rightarrow> nat \<Rightarrow> nat \<Rightarrow> bool"

text \<open>
  Modelled from the spec: the UTXO lookup (lib/txoutmap.js is not among the sources),
  \<open>get (txhash, outIndex)\<close>, gives the output or nothing.
\<close>

record txverifier =
  txv_tx :: tx
  txoutmap :: "buffer \<times> nat \<Rightarrow> txout option"

text \<open>\<open>'' + i\<close>: a number in a string is written in decimal.\<close>

fun show_nat :: "nat \<Rightarrow> string" where
  "show_nat n =
     (if n < 10 then [''0123456789'' ! n]
      else show_nat (n div 10) @ [''0123456789'' ! (n mod 10)])"

declare show_nat.simps [simp del]

text \<open>The loop over the outputs, with the running total \<open>valueoutbn\<close>.\<close>

fun check_txouts :: "txv_deps \<Rightarrow> txout list \<Rightarrow> nat \<Rightarrow> int \<Rightarrow> string option" where
  "check_txouts dp [] i valueoutbn = None"
| "check_txouts dp (txout # rest) i valueoutbn =
     (if valuebn txout < 0 then Some (''transaction txout '' @ show_nat i @ '' negative'')
      else if valuebn txout > MAX_MONEY dp
        then Some (''transaction txout '' @ show_nat i @ '' greater than MAX_MONEY'')
      else
        (let v = valueoutbn + valuebn txout in
         if v > MAX_MONEY dp
         then Some (''transaction txout '' @ show_nat i @ '' total output greater than MAX_MONEY'')
         else check_txouts dp rest (Suc i) v))"

definition inputid :: "txin \<Rightarrow> string" where
  "inputid txin = toString_hex (txhashbuf txin) @ '':'' @ show_nat (txoutnum txin)"

text \<open>The loop over the inputs, with the object \<open>txinmap\<close> of the fingerprints seen.\<close>

fun check_duplicates :: "txin list \<Rightarrow> nat \<Rightarrow> (string \<Rightarrow> bool option) \<Rightarrow> string option" where
  "check_duplicates [] i txinmap = None"
| "check_duplicates (txin # rest) i txinmap =
     (if txinmap (inputid txin) \<noteq> None
      then Some (''transaction input '' @ show_nat i @ '' duplicate input'')
      else check_duplicates rest (Suc i) (txinmap(inputid txin \<mapsto> True)))"

fun check_null_inputs :: "txv_deps \<Rightarrow> txin list \<Rightarrow> nat \<Rightarrow> string option" where
  "check_null_inputs dp [] i = None"
| "check_null_inputs dp (txin # rest) i =
     (if hasNullInput dp txin then Some (''tranasction input '' @ show_nat i @ '' has null input'')
      else check_null_inputs dp rest (Suc i))"

text \<open>\<open>checkstr\<close> returns a string, or \<open>false\<close>, which is \<open>None\<close>.\<close>

definition checkstr :: "txv_deps \<Rightarrow> txverifier \<Rightarrow> string option" where
  "checkstr dp this =
     (let t = txv_tx this in
      if length (txins t) = 0 \<or> txinsvi t = 0 then Some ''transaction txins empty''
      else if length (txouts t) = 0 \<or> txoutsvi t = 0 then Some ''transaction txouts empty''
      else if length (tx_toBuffer dp t) > MAX_BLOCK_SIZE dp
        then Some ''transaction over the maximum block size''
      else
        (case check_txouts dp (txouts t) 0 0 of
           Some msg \<Rightarrow> Some msg
         | None \<Rightarrow>
            (case check_duplicates (txins t) 0 Map.empty of
               Some msg \<Rightarrow> Some msg
             | None \<Rightarrow>
                if isCoinbase dp t then
                  (let buf = txin_script (txins t ! 0) in
                   if length buf < 2 \<or> length buf > 100
                   then Some ''coinbase trasaction script size invalid''
                   else None)
                else check_null_inputs dp (txins t) 0)))"

text \<open>
  \<open>verifynin\<close> reads \<open>.script\<close> of whatever the lookup returns; of \<open>undefined\<close>, that read
  throws.
\<close>

definition verifynin :: "txv_deps \<Rightarrow> txverifier \<Rightarrow> nat \<Rightarrow> nat \<Rightarrow> error + bool" where
  "verifynin dp this nin flags =
     (if nin < length (txins (txv_tx this)) then
        (let txin = txins (txv_tx this) ! nin; scriptSig = txin_script txin in
         case txoutmap this (txhashbuf txin, txoutnum txin) of
           None \<Rightarrow> Inl TypeError
         | Some out \<Rightarrow>
            Inr (interp_verify dp scriptSig (txout_script out) (txv_tx this) nin flags))
      else Inl TypeError)"

fun verifystr_loop :: "txv_deps \<Rightarrow> txverifier \<Rightarrow> nat \<Rightarrow> nat \<Rightarrow> nat \<Rightarrow> error + string option" where
  "verifystr_loop dp this flags i 0 = Inr None"
| "verifystr_loop dp this flags i (Suc left) =
     (case verifynin dp this i flags of
        Inl e \<Rightarrow> Inl e
      | Inr verified \<Rightarrow>
         if \<not> verified then Inr (Some (''input '' @ show_nat i @ '' failed script verify''))
         else verifystr_loop dp this flags (Suc i) left)"

definition verifystr :: "txv_deps \<Rightarrow> txverifier \<Rightarrow> nat \<Rightarrow> error + string option" where
  "verifystr dp this flags = verifystr_loop dp this flags 0 (length (txins (txv_tx this)))"

text \<open>\<open>!this.checkstr () && !this.verifystr (flags)\<close>: the second call is made only when
  the first returned \<open>false\<close>.\<close>

definition verify :: "txv_deps \<Rightarrow> txverifier \<Rightarrow> nat \<Rightarrow> error + bool" where
  "verify dp this flags =
     (case checkstr dp this of
        Some msg \<Rightarrow> Inr False
      | None \<Rightarrow>
         (case verifystr dp this flags of
            Inl e \<Rightarrow> Inl e
          | Inr (Some msg) \<Rightarrow> Inr False
          | Inr None \<Rightarrow> Inr True))"

definition Txverifier_verify :: "txv_deps \<Rightarrow> tx \<Rightarrow> (buffer \<times> nat \<Rightarrow> txout option) \<Rightarrow> nat \<Rightarrow> error + bool" where
  "Txverifier_verify dp t m flags = verify dp \<lparr>txv_tx = t, txoutmap = m\<rparr> flags"

section \<open>ECDSA\<close>

record sig =
  sig_r :: int
  sig_s :: int
  sig_recovery :: "int option"
  sig_compressed :: "bool option"

record privkey =
  privkey_bn :: int
  privkey_compressed :: "bool option"

record keypair =
  kp_privkey :: "privkey option"
  kp_pubkey :: "pubkey option"

record ecdsa =
  ec_sig :: "sig option"
  ec_keypair :: "keypair option"
  ec_hashbuf :: "buffer option"
  ec_k :: "int option"
  ec_endian :: "endianness option"
  ec_verified :: "bool option"

definition ECDSA_new :: ecdsa where
  "ECDSA_new = \<lparr>ec_sig = None, ec_keypair = None, ec_hashbuf = None, ec_k = None,
                  ec_endian = None, ec_verified = None\<rparr>"

text \<open>
  Modelled from the spec: \<open>a.mod (n)\<close> and \<open>a.umod (n)\<close> of the scalar collaborator. On the
  nonnegative scalars of the spec both are the remainder; \<open>mod\<close> keeps the sign of a
  negative \<open>a\<close>, \<open>umod\<close> never returns a negative number.
\<close>

definition bn_mod :: "int \<Rightarrow> int \<Rightarrow> int" where
  "bn_mod a n = sgn a * (\<bar>a\<bar> mod \<bar>n\<bar>)"

definition bn_umod :: "int \<Rightarrow> int \<Rightarrow> int" where
  "bn_umod a n = a mod \<bar>n\<bar>"

subsection \<open>Deterministic k\<close>

text \<open>
  The statements of \<open>deterministicK\<close> before its loop. \<open>Hash.sha256hmac (data, key)\<close>
  takes the data first.
\<close>

definition detK_init :: "deps \<Rightarrow> buffer \<Rightarrow> buffer \<Rightarrow> buffer \<times> buffer" where
  "detK_init dp x hashbuf =
     (let v = replicate 32 0x01;
          k = replicate 32 0x00;
          k = sha256hmac dp (v @ [0x00] @ x @ hashbuf) k;
          v = sha256hmac dp v k;
          k = sha256hmac dp (v @ [0x01] @ x @ hashbuf) k;
          v = sha256hmac dp v k;
          v = sha256hmac dp v k
      in (k, v))"

text \<open>
  The \<open>for\<close> loop of \<open>deterministicK\<close>. Nothing bounds the number of its rounds, so the
  model counts them down from \<open>fuel\<close>: \<open>None\<close> is a loop still running when the fuel is
  spent.
\<close>

fun detK_loop :: "deps \<Rightarrow> nat \<Rightarrow> nat \<Rightarrow> nat \<Rightarrow> buffer \<Rightarrow> buffer \<Rightarrow> int \<Rightarrow> int option" where
  "detK_loop dp 0 i badrs k v T =
     (if i < badrs \<or> \<not> (T < getN dp \<and> T > 0) then None else Some T)"
| "detK_loop dp (Suc fuel) i badrs k v T =
     (if i < badrs \<or> \<not> (T < getN dp \<and> T > 0) then
        (let k = sha256hmac dp (v @ [0x00]) k;
             v = sha256hmac dp v k;
             v = sha256hmac dp v k;
             T = bn_fromBuffer v
         in detK_loop dp fuel (Suc i) badrs k v T)
      else Some T)"

definition deterministicK :: "deps \<Rightarrow> nat \<Rightarrow> ecdsa \<Rightarrow> nat option \<Rightarrow> (error + ecdsa) option" where
  "deterministicK dp fuel this badrs_arg =
     (case ec_keypair this of
        None \<Rightarrow> Some (Inl TypeError)
      | Some kp \<Rightarrow>
         (case kp_privkey kp of
            None \<Rightarrow> Some (Inl TypeError)
          | Some pv \<Rightarrow>
             (case ec_hashbuf this of
                None \<Rightarrow> Some (Inl TypeError)
              | Some hashbuf \<Rightarrow>
                 (let x = bn_toBuffer_size 32 (privkey_bn pv);
                      kv = detK_init dp x hashbuf;
                      T = bn_fromBuffer (snd kv);
                      badrs = (case badrs_arg of None \<Rightarrow> 0 | Some b \<Rightarrow> b)
                  in case detK_loop dp fuel 0 badrs (fst kv) (snd kv) T of
                       None \<Rightarrow> None
                     | Some T' \<Rightarrow> Some (Inr (this\<lparr>ec_k := Some T'\<rparr>))))))"

text \<open>
  The procedure as the specification words it (section 4.2, steps 1 to 5), with
  \<open>HMAC (K, data)\<close> taking the key first and a retry budget that starts at \<open>badrs\<close> and is
  decremented in every round.
\<close>

definition HMAC :: "deps \<Rightarrow> buffer \<Rightarrow> buffer \<Rightarrow> buffer" where
  "HMAC dp K data = sha256hmac dp data K"

fun rfc6979_rounds :: "deps \<Rightarrow> nat \<Rightarrow> nat \<Rightarrow> buffer \<Rightarrow> buffer \<Rightarrow> int \<Rightarrow> int option" where
  "rfc6979_rounds dp 0 budget K V T =
     (if T \<ge> getN dp \<or> T = 0 \<or> budget > 0 then None else Some T)"
| "rfc6979_rounds dp (Suc fuel) budget K V T =
     (if T \<ge> getN dp \<or> T = 0 \<or> budget > 0 then
        (let K1 = HMAC dp K (V @ [0x00]);
             V1 = HMAC dp K1 V;
             V2 = HMAC dp K1 V1
         in rfc6979_rounds dp fuel (budget - 1) K1 V2 (bn_fromBuffer V2))
      else Some T)"

definition rfc6979_spec :: "deps \<Rightarrow> nat \<Rightarrow> buffer \<Rightarrow> buffer \<Rightarrow> nat \<Rightarrow> int option" where
  "rfc6979_spec dp fuel d h badrs =
     (let V0 = replicate 32 0x01;
          K0 = replicate 32 0x00;
          K1 = HMAC dp K0 (V0 @ [0x00] @ d @ h);
          V1 = HMAC dp K1 V0;
          K2 = HMAC dp K1 (V1 @ [0x01] @ d @ h);
          V2 = HMAC dp K2 V1;
          V3 = HMAC dp K2 V2
      in rfc6979_rounds dp fuel badrs K2 V3 (bn_fromBuffer V3))"

subsection \<open>Signing\<close>

text \<open>
  The \<open>do ... while\<close> loop of \<open>sign\<close>: each round takes one unit of fuel and hands the
  rest to \<open>deterministicK\<close>. It returns the object (with the \<open>k\<close> used), \<open>r\<close> and \<open>s\<close>.
\<close>

fun sign_loop :: "deps \<Rightarrow> nat \<Rightarrow> ecdsa \<Rightarrow> nat \<Rightarrow> int \<Rightarrow> int \<Rightarrow> (error + ecdsa \<times> int \<times> int) option" where
  "sign_loop dp 0 this badrs e d = None"
| "sign_loop dp (Suc fuel) this badrs e d =
     (case (if ec_k this = None \<or> badrs > 0 then deterministicK dp fuel this (Some badrs)
            else Some (Inr this)) of
        None \<Rightarrow> None
      | Some (Inl err) \<Rightarrow> Some (Inl err)
      | Some (Inr this') \<Rightarrow>
         (case ec_k this' of
            None \<Rightarrow> Some (Inl TypeError)
          | Some k \<Rightarrow>
             (case getX (mul dp (getG dp) k) of
                Inl err \<Rightarrow> Some (Inl err)
              | Inr qx \<Rightarrow>
                 (let r = bn_mod qx (getN dp);
                      s = bn_mod (invm dp k (getN dp) * (e + d * r)) (getN dp)
                  in if r \<le> 0 \<or> s \<le> 0 then sign_loop dp fuel this' (Suc badrs) e d
                     else Some (Inr (this', r, s))))))"

definition lowS_bound :: int where
  "lowS_bound = 0x7FFFFFFFFFFFFFFFFFFFFFFFFFFFFFFF5D576E7357A4501DDFE92F46681B20A0"

definition enforce_lowS :: "deps \<Rightarrow> int \<Rightarrow> int" where
  "enforce_lowS dp s = (if s > lowS_bound then getN dp - s else s)"

definition sign :: "deps \<Rightarrow> nat \<Rightarrow> ecdsa \<Rightarrow> (error + ecdsa) option" where
  "sign dp fuel this =
     (case ec_keypair this of
        None \<Rightarrow> Some (Inl TypeError)
      | Some kp \<Rightarrow>
         (case kp_privkey kp of
            None \<Rightarrow> Some (Inl TypeError)
          | Some pv \<Rightarrow>
             (case ec_hashbuf this of
                None \<Rightarrow> Some (Inl (Error ''invalid parameters''))
              | Some hashbuf \<Rightarrow>
                 if length hashbuf \<noteq> 32 then Some (Inl (Error ''hashbuf must be a 32 byte buffer''))
                 else
                   (let d = privkey_bn pv;
                        e = bn_fromBuffer_endian hashbuf (ec_endian this)
                    in case sign_loop dp fuel this 0 e d of
                         None \<Rightarrow> None
                       | Some (Inl err) \<Rightarrow> Some (Inl err)
                       | Some (Inr (this', r, s)) \<Rightarrow>
                          (case kp_pubkey kp of
                             None \<Rightarrow> Some (Inl TypeError)
                           | Some pub \<Rightarrow>
                              Some (Inr (this'\<lparr>ec_sig :=
                                Some \<lparr>sig_r = r, sig_s = enforce_lowS dp s, sig_recovery = None,
                                      sig_compressed = pk_compressed pub\<rparr>\<rparr>)))))))"

definition ECDSA_sign :: "deps \<Rightarrow> nat \<Rightarrow> buffer \<Rightarrow> keypair \<Rightarrow> endianness option \<Rightarrow> (error + sig) option" where
  "ECDSA_sign dp fuel hashbuf kp endian =
     (case sign dp fuel (ECDSA_new\<lparr>ec_hashbuf := Some hashbuf, ec_endian := endian,
                                   ec_keypair := Some kp\<rparr>) of
        None \<Rightarrow> None
      | Some (Inl err) \<Rightarrow> Some (Inl err)
      | Some (Inr this') \<Rightarrow>
         (case ec_sig this' of None \<Rightarrow> Some (Inl TypeError) | Some sg \<Rightarrow> Some (Inr sg)))"

subsection \<open>Verification\<close>

definition error_text :: "error \<Rightarrow> string" where
  "error_text e = (case e of Error msg \<Rightarrow> ''Error: '' @ msg | TypeError \<Rightarrow> ''TypeError'')"

text \<open>
  \<open>verifystr\<close> of the ECDSA object: a string, or \<open>false\<close> (\<open>None\<close>) for a valid signature.
  Whatever \<open>this.keypair.pubkey.validate ()\<close> throws is caught; the read of \<open>this.sig.r\<close>
  is outside the \<open>try\<close>.
\<close>

definition ecdsa_verifystr :: "deps \<Rightarrow> ecdsa \<Rightarrow> error + string option" where
  "ecdsa_verifystr dp this =
     (case ec_hashbuf this of
        None \<Rightarrow> Inr (Some ''hashbuf must be a 32 byte buffer'')
      | Some hashbuf \<Rightarrow>
         if length hashbuf \<noteq> 32 then Inr (Some ''hashbuf must be a 32 byte buffer'')
         else
           (case (case ec_keypair this of
                    None \<Rightarrow> Inl TypeError
                  | Some kp \<Rightarrow>
                     (case kp_pubkey kp of
                        None \<Rightarrow> Inl TypeError
                      | Some pub \<Rightarrow> pk_validate dp pub)) of
              Inl err \<Rightarrow> Inr (Some (''Invalid pubkey: '' @ error_text err))
            | Inr pub \<Rightarrow>
               (case ec_sig this of
                  None \<Rightarrow> Inl TypeError
                | Some sg \<Rightarrow>
                   (let r = sig_r sg; s = sig_s sg in
                    if \<not> (r > 0 \<and> r < getN dp) \<or> \<not> (s > 0 \<and> s < getN dp)
                    then Inr (Some ''r and s not in range'')
                    else
                      (let e = bn_fromBuffer_endian hashbuf (ec_endian this);
                           n = getN dp;
                           sinv = invm dp s n;
                           u1 = bn_mod (sinv * e) n;
                           u2 = bn_mod (sinv * r) n
                       in case pk_point pub of
                            None \<Rightarrow> Inl TypeError
                          | Some q \<Rightarrow>
                             (let p = mulAdd dp (getG dp) u1 q u2 in
                              if isInfinity p then Inr (Some ''p is infinity'')
                              else
                                (case getX p of
                                   Inl err \<Rightarrow> Inl err
                                 | Inr px \<Rightarrow>
                                    if \<not> (bn_mod px n = r) then Inr (Some ''Invalid signature'')
                                    else Inr None)))))))"

definition ecdsa_verify :: "deps \<Rightarrow> ecdsa \<Rightarrow> error + ecdsa" where
  "ecdsa_verify dp this =
     (case ecdsa_verifystr dp this of
        Inl err \<Rightarrow> Inl err
      | Inr None \<Rightarrow> Inr (this\<lparr>ec_verified := Some True\<rparr>)
      | Inr (Some msg) \<Rightarrow> Inr (this\<lparr>ec_verified := Some False\<rparr>))"

definition ECDSA_verify :: "deps \<Rightarrow> buffer \<Rightarrow> sig \<Rightarrow> pubkey \<Rightarrow> endianness option \<Rightarrow> error + bool option" where
  "ECDSA_verify dp hashbuf sg pub endian =
     (case ecdsa_verify dp (ECDSA_new\<lparr>ec_hashbuf := Some hashbuf, ec_endian := endian,
                                      ec_sig := Some sg,
                                      ec_keypair := Some \<lparr>kp_privkey = None, kp_pubkey = Some pub\<rparr>\<rparr>) of
        Inl err \<Rightarrow> Inl err
      | Inr this' \<Rightarrow> Inr (ec_verified this'))"

subsection \<open>Public key recovery\<close>

definition sig2pubkey :: "deps \<Rightarrow> ecdsa \<Rightarrow> error + pubkey" where
  "sig2pubkey dp this =
     (case ec_sig this of
        None \<Rightarrow> Inl TypeError
      | Some sg \<Rightarrow>
         (let recovery = sig_recovery sg in
          if \<not> (recovery = Some 0 \<or> recovery = Some 1 \<or> recovery = Some 2 \<or> recovery = Some 3)
          then Inl (Error ''i must be equal to 0, 1, 2, or 3'')
          else
            (case ec_hashbuf this of
               None \<Rightarrow> Inl TypeError
             | Some hashbuf \<Rightarrow>
                (let e = bn_fromBuffer hashbuf;
                     r = sig_r sg;
                     s = sig_s sg;
                     isYOdd = (the recovery mod 2 = 1);
                     isSecondKey = (the recovery div 2 \<noteq> 0);
                     n = getN dp;
                     G = getG dp;
                     x = (if isSecondKey then r + n else r)
                 in case Point_fromX dp isYOdd x of
                      Inl err \<Rightarrow> Inl err
                    | Inr R \<Rightarrow>
                       (let nR = mul dp R n in
                        if \<not> isInfinity nR then Inl (Error ''nR is not a valid curve point'')
                        else
                          (let eNeg = bn_umod (- e) n;
                               rInv = invm dp r n;
                               Q = mul dp (add dp (mul dp R s) (mul dp G eNeg)) rInv;
                               pubkey = \<lparr>pk_point = Some Q, pk_compressed = sig_compressed sg\<rparr>
                           in case pk_validate dp pubkey of
                                Inl err \<Rightarrow> Inl err
                              | Inr pk \<Rightarrow> Inr pubkey))))))"

text \<open>
  The loop of \<open>calcrecovery\<close> over \<open>recovery = 0, 1, 2, 3\<close>. Every value is written to
  \<open>this.sig.recovery\<close> before the attempt; an attempt that throws is skipped.
\<close>

function calcrecovery_loop :: "deps \<Rightarrow> ecdsa \<Rightarrow> sig \<Rightarrow> nat \<Rightarrow> error + ecdsa" where
  "calcrecovery_loop dp this sg recovery =
     (if recovery < 4 then
        (let sg1 = sg\<lparr>sig_recovery := Some (int recovery)\<rparr>;
             this1 = this\<lparr>ec_sig := Some sg1\<rparr>
         in case sig2pubkey dp this1 of
              Inl err \<Rightarrow> calcrecovery_loop dp this1 sg1 (recovery + 1)
            | Inr Qprime \<Rightarrow>
               (case ec_keypair this1 of
                  None \<Rightarrow> Inl TypeError
                | Some kp \<Rightarrow>
                   (case kp_pubkey kp of
                      None \<Rightarrow> Inl TypeError
                    | Some pub \<Rightarrow>
                       (case pk_point Qprime of
                          None \<Rightarrow> Inl TypeError
                        | Some q \<Rightarrow>
                           (case pk_point pub of
                              None \<Rightarrow> Inl TypeError
                            | Some expected \<Rightarrow>
                               if point_eq q expected then
                                 Inr (this1\<lparr>ec_sig := Some (sg1\<lparr>sig_compressed :=
                                        Some (if pk_compressed pub = None then True
                                              else the (pk_compressed pub))\<rparr>)\<rparr>)
                               else calcrecovery_loop dp this1 sg1 (recovery + 1))))))
      else Inl (Error ''Unable to find valid recovery factor''))"
  by pat_completeness auto
termination
  by (relation "measure (\<lambda>(dp, this, sg, recovery). 4 - recovery)") auto

declare calcrecovery_loop.simps [simp del]

definition calcrecovery :: "deps \<Rightarrow> ecdsa \<Rightarrow> error + ecdsa" where
  "calcrecovery dp this =
     (case ec_sig this of
        None \<Rightarrow> Inl TypeError
      | Some sg \<Rightarrow> calcrecovery_loop dp this sg 0)"

definition ECDSA_calcrecovery :: "deps \<Rightarrow> sig \<Rightarrow> pubkey \<Rightarrow> buffer \<Rightarrow> error + sig" where
  "ECDSA_calcrecovery dp sg pub hashbuf =
     (case calcrecovery dp (ECDSA_new\<lparr>ec_sig := Some sg,
                                      ec_keypair := Some \<lparr>kp_privkey = None, kp_pubkey = Some pub\<rparr>,
                                      ec_hashbuf := Some hashbuf\<rparr>) of
        Inl err \<Rightarrow> Inl err
      | Inr this' \<Rightarrow> (case ec_sig this' of None \<Rightarrow> Inl TypeError | Some sg' \<Rightarrow> Inr sg'))"

definition ECDSA_sig2pubkey :: "deps \<Rightarrow> sig \<Rightarrow> buffer \<Rightarrow> error + pubkey" where
  "ECDSA_sig2pubkey dp sg hashbuf =
     sig2pubkey dp (ECDSA_new\<lparr>ec_sig := Some sg, ec_hashbuf := Some hashbuf\<rparr>)"

section \<open>The collaborators, modelled\<close>

text \<open>
  Modelled from the spec: the curve collaborator (lib/point.js and lib/bn.js are not
  among the sources) as affine arithmetic on \<open>y\<^sup>2 = x\<^sup>3 + 7\<close> over the integers modulo a
  prime \<open>p\<close> with \<open>p mod 4 = 3\<close>: the constructor reduces the coordinates into the field,
  addition and doubling are the chord and tangent rules, scalar multiplication is
  double-and-add, \<open>fromX\<close> lifts an \<open>x\<close> to the point with the \<open>y\<close> of the parity asked for,
  and \<open>validate\<close> checks the curve equation. \<open>invm\<close> is the extended Euclidean algorithm.
\<close>

function xgcd :: "int \<Rightarrow> int \<Rightarrow> int \<Rightarrow> int \<Rightarrow> int" where
  "xgcd r0 r1 t0 t1 = (if r1 \<le> 0 then t0 else xgcd r1 (r0 mod r1) t1 (t0 - (r0 div r1) * t1))"
  by pat_completeness auto
termination
  by (relation "measure (\<lambda>(r0, r1, t0, t1). nat r1)") (auto simp: nat_less_iff)

declare xgcd.simps [simp del]

definition invm_euclid :: "int \<Rightarrow> int \<Rightarrow> int" where
  "invm_euclid a n = xgcd n (a mod n) 0 1 mod n"

function modpow :: "int \<Rightarrow> int \<Rightarrow> int \<Rightarrow> int" where
  "modpow b e m =
     (if e \<le> 0 then 1 mod m
      else (let h = modpow ((b * b) mod m) (e div 2) m in
            if e mod 2 = 1 then (b * h) mod m else h))"
  by pat_completeness auto
termination
  by (relation "measure (\<lambda>(b, e, m). nat e)") auto

declare modpow.simps [simp del]

definition curve_new :: "int \<Rightarrow> int \<Rightarrow> int \<Rightarrow> point" where
  "curve_new p x y = Affine (x mod p) (y mod p)"

definition curve_double :: "int \<Rightarrow> point \<Rightarrow> point" where
  "curve_double p a =
     (case a of
        Infinity \<Rightarrow> Infinity
      | Affine x y \<Rightarrow>
         if (2 * y) mod p = 0 then Infinity
         else
           (let l = (3 * x * x * invm_euclid (2 * y) p) mod p;
                x3 = (l * l - 2 * x) mod p
            in Affine x3 ((l * (x - x3) - y) mod p)))"

definition curve_add :: "int \<Rightarrow> point \<Rightarrow> point \<Rightarrow> point" where
  "curve_add p a b =
     (case a of
        Infinity \<Rightarrow> b
      | Affine x1 y1 \<Rightarrow>
         (case b of
            Infinity \<Rightarrow> a
          | Affine x2 y2 \<Rightarrow>
             if x1 = x2 then (if (y1 + y2) mod p = 0 then Infinity else curve_double p a)
             else
               (let l = ((y2 - y1) * invm_euclid (x2 - x1) p) mod p;
                    x3 = (l * l - x1 - x2) mod p
                in Affine x3 ((l * (x1 - x3) - y1) mod p))))"

function curve_mul :: "int \<Rightarrow> point \<Rightarrow> int \<Rightarrow> point" where
  "curve_mul p a k =
     (if k \<le> 0 then Infinity
      else (let h = curve_mul p (curve_double p a) (k div 2) in
            if k mod 2 = 1 then curve_add p a h else h))"
  by pat_completeness auto
termination
  by (relation "measure (\<lambda>(p, a, k). nat k)") auto

declare curve_mul.simps [simp del]

definition curve_fromX :: "int \<Rightarrow> bool \<Rightarrow> int \<Rightarrow> error + point" where
  "curve_fromX p isodd x =
     (let xr = x mod p;
          y2 = (xr * xr * xr + 7) mod p;
          y = modpow y2 ((p + 1) div 4) p
      in if (y * y) mod p \<noteq> y2 then Inl (Error ''invalid point'')
         else Inr (Affine xr (if (y mod 2 = 1) = isodd then y else (p - y) mod p)))"

definition curve_validate :: "int \<Rightarrow> point \<Rightarrow> error + unit" where
  "curve_validate p a =
     (case a of
        Infinity \<Rightarrow> Inl TypeError
      | Affine x y \<Rightarrow>
         if (y * y) mod p = (x * x * x + 7) mod p \<and> 0 \<le> x \<and> x < p \<and> 0 \<le> y \<and> y < p
         then Inr ()
         else Inl (Error ''Invalid y value of public key''))"

definition curve_deps :: "int \<Rightarrow> int \<Rightarrow> point \<Rightarrow> (buffer \<Rightarrow> buffer \<Rightarrow> buffer) \<Rightarrow> deps" where
  "curve_deps p n g hm =
     \<lparr>sha256hmac = hm, getN = n, getG = g, Point_new = curve_new p,
      Point_fromX = curve_fromX p, mul = curve_mul p, add = curve_add p,
      mulAdd = (\<lambda>a u1 b u2. curve_add p (curve_mul p a u1) (curve_mul p b u2)),
      point_validate = curve_validate p, invm = invm_euclid\<rparr>"

text \<open>
  secp256k1: the field prime of the glossary, the order \<open>N\<close> whose half, rounded down, is
  the low-s bound the code spells out, and the standard base point.
\<close>

definition secp256k1_P :: int where
  "secp256k1_P = 2 ^ 256 - 2 ^ 32 - 977"

definition secp256k1_N :: int where
  "secp256k1_N = 0xFFFFFFFFFFFFFFFFFFFFFFFFFFFFFFFEBAAEDCE6AF48A03BBFD25E8CD0364141"

definition secp256k1_G :: point where
  "secp256k1_G = Affine 0x79BE667EF9DCBBAC55A06295CE870B07029BFCDB2DCE28D959F2815B16F81798
                        0x483ADA7726A3C4655DA4FBFC0E1108A8FD17B448A68554199C47D08FFB10D4B8"

definition secp256k1 :: "(buffer \<Rightarrow> buffer \<Rightarrow> buffer) \<Rightarrow> deps" where
  "secp256k1 hm = curve_deps secp256k1_P secp256k1_N secp256k1_G hm"

text \<open>
  A curve of the same shape small enough to compute on: \<open>y\<^sup>2 = x\<^sup>3 + 7\<close> over the
  integers modulo 43, whose 31 points form a group of prime order, based at \<open>(2, 12)\<close>.
\<close>

definition small_curve :: "(buffer \<Rightarrow> buffer \<Rightarrow> buffer) \<Rightarrow> deps" where
  "small_curve hm = curve_deps 43 31 (Affine 2 12) hm"

text \<open>
  Modelled from the spec: the transaction collaborators (lib/tx.js, lib/txin.js and
  lib/block.js are not among the sources). The serialization is the wire form the
  repository's tests spell out in hex: the version, the declared input count as a varint,
  every input (hash, output index, script length, script, sequence number), the declared
  output count, every output (value, script length, script) and the lock time, the
  numbers little-endian. A null input is the zero hash with index \<open>0xFFFFFFFF\<close>; a
  coinbase has one input, and it is null.
\<close>

definition uint_le :: "nat \<Rightarrow> nat \<Rightarrow> buffer" where
  "uint_le n v = map (\<lambda>i. of_nat (v div 256 ^ i mod 256)) [0..<n]"

definition varint_buf :: "nat \<Rightarrow> buffer" where
  "varint_buf n =
     (if n < 253 then [of_nat n]
      else if n < 0x10000 then 253 # uint_le 2 n
      else if n < 0x100000000 then 254 # uint_le 4 n
      else 255 # uint_le 8 n)"

definition txin_toBuffer :: "txin \<Rightarrow> buffer" where
  "txin_toBuffer i =
     txhashbuf i @ uint_le 4 (txoutnum i) @ varint_buf (length (txin_script i)) @ txin_script i @
     uint_le 4 (seqnum i)"

definition txout_toBuffer :: "txout \<Rightarrow> buffer" where
  "txout_toBuffer out =
     uint_le 8 (nat (valuebn out)) @ varint_buf (length (txout_script out)) @ txout_script out"

definition tx_toBuffer_wire :: "tx \<Rightarrow> buffer" where
  "tx_toBuffer_wire t =
     uint_le 4 (version t) @ varint_buf (txinsvi t) @ concat (map txin_toBuffer (txins t)) @
     varint_buf (txoutsvi t) @ concat (map txout_toBuffer (txouts t)) @ uint_le 4 (nlocktime t)"

definition hasNullInput_wire :: "txin \<Rightarrow> bool" where
  "hasNullInput_wire i =
     (toString_hex (txhashbuf i) = replicate 64 (CHR ''0'') \<and> txoutnum i = 0xffffffff)"

definition isCoinbase_wire :: "tx \<Rightarrow> bool" where
  "isCoinbase_wire t = (length (txins t) = 1 \<and> hasNullInput_wire (txins t ! 0))"

definition mainnet :: "(buffer \<Rightarrow> buffer \<Rightarrow> tx \<Rightarrow> nat \<Rightarrow> nat \<Rightarrow> bool) \<Rightarrow> txv_deps" where
  "mainnet interp =
     \<lparr>MAX_BLOCK_SIZE = 1000000, MAX_MONEY = 21000000 * 100000000,
      tx_toBuffer = tx_toBuffer_wire, isCoinbase = isCoinbase_wire,
      hasNullInput = hasNullInput_wire, interp_verify = interp\<rparr>"

text \<open>
  \<open>checkstr\<close> as the specification words it (section 4.3): the checks in their canonical
  order, each giving its diagnostic or nothing, and the first diagnostic is the result.
  The check of output \<open>i\<close> looks at its value and at the sum of the outputs up to and
  including \<open>i\<close>; the check of input \<open>i\<close> looks for the output it spends, the pair of
  the previous transaction hash and the output index, among the outputs the inputs before
  it spend.
\<close>

fun first_diagnostic :: "string option list \<Rightarrow> string option" where
  "first_diagnostic [] = None"
| "first_diagnostic (None # rest) = first_diagnostic rest"
| "first_diagnostic (Some msg # rest) = Some msg"

definition txout_violation :: "txv_deps \<Rightarrow> txout list \<Rightarrow> nat \<Rightarrow> string option" where
  "txout_violation dp outs i =
     (if valuebn (outs ! i) < 0
        then Some (''transaction txout '' @ show_nat i @ '' negative'')
      else if valuebn (outs ! i) > MAX_MONEY dp
        then Some (''transaction txout '' @ show_nat i @ '' greater than MAX_MONEY'')
      else if sum_list (map valuebn (take (Suc i) outs)) > MAX_MONEY dp
        then Some (''transaction txout '' @ show_nat i @ '' total output greater than MAX_MONEY'')
      else None)"

definition prevout :: "txin \<Rightarrow> buffer \<times> nat" where
  "prevout txin = (txhashbuf txin, txoutnum txin)"

definition duplicate_violation :: "txin list \<Rightarrow> nat \<Rightarrow> string option" where
  "duplicate_violation ins i =
     (if prevout (ins ! i) \<in> set (map prevout (take i ins))
        then Some (''transaction input '' @ show_nat i @ '' duplicate input'')
      else None)"

definition null_violation :: "txv_deps \<Rightarrow> txin list \<Rightarrow> nat \<Rightarrow> string option" where
  "null_violation dp ins i =
     (if hasNullInput dp (ins ! i)
        then Some (''tranasction input '' @ show_nat i @ '' has null input'')
      else None)"

definition checkstr_spec :: "txv_deps \<Rightarrow> txverifier \<Rightarrow> string option" where
  "checkstr_spec dp this =
     (let t = txv_tx this in
      first_diagnostic
        ([if length (txins t) = 0 \<or> txinsvi t = 0 then Some ''transaction txins empty'' else None,
          if length (txouts t) = 0 \<or> txoutsvi t = 0 then Some ''transaction txouts empty'' else None,
          if length (tx_toBuffer dp t) > MAX_BLOCK_SIZE dp
            then Some ''transaction over the maximum block size'' else None]
         @ map (txout_violation dp (txouts t)) [0..<length (txouts t)]
         @ map (duplicate_violation (txins t)) [0..<length (txins t)]
         @ (if isCoinbase dp t
              then [if length (txin_script (txins t ! 0)) < 2 \<or> length (txin_script (txins t ! 0)) > 100
                      then Some ''coinbase trasaction script size invalid'' else None]
            else map (null_violation dp (txins t)) [0..<length (txins t)])))"

section \<open>Auxiliary notions and examples\<close>

text \<open>
  The fingerprints \<open>txinmap\<close> holds when the loop of \<open>checkstr\<close> reaches input \<open>i\<close>: those
  of the inputs before it.
\<close>

definition seen :: "txin list \<Rightarrow> nat \<Rightarrow> string \<Rightarrow> bool option" where
  "seen ins i = (\<lambda>k. if k \<in> set (map inputid (take i ins)) then Some True else None)"

text \<open>
  One attempt of \<open>calcrecovery\<close>: \<open>sig2pubkey\<close> with \<open>sig.recovery = i\<close>; the attempt
  recovers the expected key when it returns a key with the expected point; and the result
  of \<open>calcrecovery\<close> when its first successful attempt, if any, is \<open>found\<close>.
\<close>

definition recovery_attempt :: "deps \<Rightarrow> ecdsa \<Rightarrow> sig \<Rightarrow> nat \<Rightarrow> error + pubkey" where
  "recovery_attempt dp this sg i =
     sig2pubkey dp (this\<lparr>ec_sig := Some (sg\<lparr>sig_recovery := Some (int i)\<rparr>)\<rparr>)"

definition recovers :: "deps \<Rightarrow> ecdsa \<Rightarrow> sig \<Rightarrow> point \<Rightarrow> nat \<Rightarrow> bool" where
  "recovers dp this sg expected i =
     (case recovery_attempt dp this sg i of
        Inl err \<Rightarrow> False
      | Inr Qprime \<Rightarrow> pk_point Qprime = Some expected)"

definition recovery_result :: "ecdsa \<Rightarrow> sig \<Rightarrow> pubkey \<Rightarrow> nat option \<Rightarrow> error + ecdsa" where
  "recovery_result this sg pub found =
     (case found of
        None \<Rightarrow> Inl (Error ''Unable to find valid recovery factor'')
      | Some i \<Rightarrow>
         Inr (this\<lparr>ec_sig := Some (sg\<lparr>sig_recovery := Some (int i),
                sig_compressed := Some (case pk_compressed pub of None \<Rightarrow> True | Some c \<Rightarrow> c)\<rparr>)\<rparr>))"

text \<open>
  A transaction whose two inputs spend the same output, a transaction whose two inputs
  spend different outputs, and a transaction with one input; each has one output of 5
  satoshi.
\<close>

definition two_in_tx :: tx where
  "two_in_tx = \<lparr>version = 1, txinsvi = 2,
     txins = [\<lparr>txhashbuf = replicate 32 0x11, txoutnum = 0, txin_script = [0xae], seqnum = 0xffffffff\<rparr>,
              \<lparr>txhashbuf = replicate 32 0x22, txoutnum = 7, txin_script = [0xae], seqnum = 0xffffffff\<rparr>],
     txoutsvi = 1, txouts = [\<lparr>valuebn = 5, txout_script = [0xae]\<rparr>], nlocktime = 0\<rparr>"

definition dup_tx :: tx where
  "dup_tx = \<lparr>version = 1, txinsvi = 2,
     txins = [\<lparr>txhashbuf = replicate 32 0x11, txoutnum = 0, txin_script = [0xae], seqnum = 0xffffffff\<rparr>,
              \<lparr>txhashbuf = replicate 32 0x11, txoutnum = 0, txin_script = [0xae], seqnum = 0xffffffff\<rparr>],
     txoutsvi = 1, txouts = [\<lparr>valuebn = 5, txout_script = [0xae]\<rparr>], nlocktime = 0\<rparr>"

definition one_in_tx :: tx where
  "one_in_tx = \<lparr>version = 1, txinsvi = 1,
     txins = [\<lparr>txhashbuf = replicate 32 0x11, txoutnum = 0, txin_script = [0xae], seqnum = 0xffffffff\<rparr>],
     txoutsvi = 1, txouts = [\<lparr>valuebn = 5, txout_script = [0xae]\<rparr>], nlocktime = 0\<rparr>"

text \<open>
  A signing request on secp256k1: the private key 1, whose public key is the base point,
  the digest \<open>0x10 00 ... 00\<close>, and \<open>k = 1\<close> already set on the object (as \<open>signRandomK\<close>
  sets it before it calls \<open>sign\<close>).
\<close>

definition signing_example :: ecdsa where
  "signing_example =
     ECDSA_new\<lparr>ec_hashbuf := Some (0x10 # replicate 31 0),
                ec_keypair := Some \<lparr>kp_privkey = Some \<lparr>privkey_bn = 1, privkey_compressed = Some True\<rparr>,
                                     kp_pubkey = Some \<lparr>pk_point = Some secp256k1_G,
                                                        pk_compressed = Some True\<rparr>\<rparr>,
                ec_k := Some 1\<rparr>"

text \<open>
  A recovery request on the small curve: the signature \<open>(r, s) = (4, 10)\<close> that the
  private key 7 gives on the digest \<open>0x00 ... 00 21\<close> with \<open>k = 3\<close>, and the public key
  \<open>7 G = (25, 18)\<close>.
\<close>

definition recovery_example :: ecdsa where
  "recovery_example =
     ECDSA_new\<lparr>ec_sig := Some \<lparr>sig_r = 4, sig_s = 10, sig_recovery = None, sig_compressed = None\<rparr>,
                ec_keypair := Some \<lparr>kp_privkey = None,
                                     kp_pubkey = Some \<lparr>pk_point = Some (Affine 25 18), pk_compressed = None\<rparr>\<rparr>,
                ec_hashbuf := Some (replicate 31 0 @ [0x21])\<rparr>"

section \<open>Byte forms of scalars\<close>

lemma bn_fromBuffer_append:
  "bn_fromBuffer (xs @ ys) = bn_fromBuffer xs * 256 ^ length ys + bn_fromBuffer ys"
proof (induction ys rule: rev_induct)
  case Nil
  show ?case by (simp add: bn_fromBuffer_def)
next
  case (snoc y ys)
  have "bn_fromBuffer (xs @ ys @ [y]) = bn_fromBuffer (xs @ ys) * 256 + uint y"
    by (simp add: bn_fromBuffer_def)
  also have "\<dots> = (bn_fromBuffer xs * 256 ^ length ys + bn_fromBuffer ys) * 256 + uint y"
    using snoc.IH by simp
  also have "\<dots> = bn_fromBuffer xs * 256 ^ length (ys @ [y]) + bn_fromBuffer (ys @ [y])"
    by (simp add: bn_fromBuffer_def algebra_simps)
  finally show ?case by simp
qed

lemma bn_fromBuffer_zeros: "bn_fromBuffer (replicate n 0) = 0"
  by (induction n) (simp_all add: bn_fromBuffer_def)

lemma bn_fromBuffer_nat_bytes: "bn_fromBuffer (nat_bytes n) = int n"
proof (induction n rule: nat_bytes.induct)
  case (1 n)
  show ?case
  proof (cases "n = 0")
    case True
    then show ?thesis by (simp add: nat_bytes.simps bn_fromBuffer_def)
  next
    case False
    have m: "uint (of_nat (n mod 256) :: byte) = int (n mod 256)"
      by (simp add: unsigned_of_nat take_bit_eq_mod)
    have "bn_fromBuffer (nat_bytes n) = bn_fromBuffer (nat_bytes (n div 256)) * 256 + int (n mod 256)"
      using False m by (subst nat_bytes.simps) (simp add: bn_fromBuffer_append bn_fromBuffer_def)
    also have "\<dots> = int (n div 256) * 256 + int (n mod 256)"
      using 1 False by simp
    also have "\<dots> = int n"
      by (simp add: zdiv_int zmod_int)
    finally show ?thesis .
  qed
qed

lemma length_nat_bytes: "n < 256 ^ k \<Longrightarrow> length (nat_bytes n) \<le> k"
proof (induction n arbitrary: k rule: nat_bytes.induct)
  case (1 n)
  show ?case
  proof (cases "n = 0")
    case True
    then show ?thesis by (simp add: nat_bytes.simps)
  next
    case False
    then obtain j where k: "k = Suc j"
      using "1.prems" by (cases k) auto
    have "n div 256 < 256 ^ j"
      using "1.prems" k by (simp add: less_mult_imp_div_less mult.commute)
    then have "length (nat_bytes (n div 256)) \<le> j"
      using 1 False by blast
    then show ?thesis
      using False k by (subst nat_bytes.simps) simp
  qed
qed

lemma bn_toBuffer_size_length:
  assumes "0 \<le> x" and "x < 256 ^ sz"
  shows "length (bn_toBuffer_size sz x) = sz"
proof -
  have "nat x < 256 ^ sz"
    using assms by (simp add: nat_less_iff)
  then have "length (nat_bytes (nat x)) \<le> sz"
    by (rule length_nat_bytes)
  then show ?thesis
    by (simp add: bn_toBuffer_size_def Let_def)
qed

lemma bn_fromBuffer_toBuffer:
  assumes "0 \<le> x"
  shows "bn_fromBuffer (bn_toBuffer_size sz x) = x"
  using assms
  by (simp add: bn_toBuffer_size_def Let_def bn_fromBuffer_append bn_fromBuffer_zeros
      bn_fromBuffer_nat_bytes)

lemma nat_bytes_eq_Nil: "nat_bytes n = [] \<longleftrightarrow> n = 0"
  by (subst nat_bytes.simps) simp

lemma last_nat_bytes: "n \<noteq> 0 \<Longrightarrow> last (nat_bytes n) = of_nat (n mod 256)"
  by (subst nat_bytes.simps) simp

lemma length_toBuffer_ge: "sz \<le> length (bn_toBuffer_size sz x)"
  by (simp add: bn_toBuffer_size_def Let_def)

lemma unat_byte_mod2: "unat (of_nat (n mod 256) :: byte) mod 2 = n mod 2"
proof -
  have "unat (of_nat (n mod 256) :: byte) = n mod 256"
    by (simp add: unat_of_nat)
  moreover have "n mod 256 mod 2 = n mod 2"
    by (simp add: mod_mod_cancel)
  ultimately show ?thesis by simp
qed

lemma last_toBuffer_parity:
  assumes "0 \<le> y" and "0 < sz"
    and at: "buf_at (bn_toBuffer_size sz y) (length (bn_toBuffer_size sz y) - 1) = Some l"
  shows "(unat l mod 2 \<noteq> 0) = (y mod 2 = 1)"
proof -
  have ne: "bn_toBuffer_size sz y \<noteq> []"
    using length_toBuffer_ge [of sz y] assms(2) by auto
  then have l: "l = last (bn_toBuffer_size sz y)"
    using at by (simp add: buf_at_def last_conv_nth split: if_splits)
  show ?thesis
  proof (cases "nat y = 0")
    case True
    then have "y = 0" using assms(1) by simp
    moreover have "nat_bytes 0 = []" by (simp add: nat_bytes_eq_Nil)
    ultimately show ?thesis using l assms(2) by (simp add: bn_toBuffer_size_def)
  next
    case False
    then have "nat_bytes (nat y) \<noteq> []" by (simp add: nat_bytes_eq_Nil)
    then have "l = of_nat (nat y mod 256)"
      using l False by (simp add: bn_toBuffer_size_def Let_def last_nat_bytes)
    then have "unat l mod 2 = nat y mod 2"
      by (simp only: unat_byte_mod2)
    moreover have "(nat y mod 2 \<noteq> 0) = (y mod 2 = 1)"
    proof -
      have "int (nat y mod 2) = y mod 2"
        using assms(1) by (simp add: zmod_int)
      then show ?thesis by linarith
    qed
    ultimately show ?thesis by simp
  qed
qed

lemma Gx_bytes:
  "bn_toBuffer_size 32 0x79BE667EF9DCBBAC55A06295CE870B07029BFCDB2DCE28D959F2815B16F81798 =
     [0x79, 0xBE, 0x66, 0x7E, 0xF9, 0xDC, 0xBB, 0xAC, 0x55, 0xA0, 0x62, 0x95, 0xCE, 0x87, 0x0B, 0x07, 0x02, 0x9B, 0xFC, 0xDB, 0x2D, 0xCE, 0x28, 0xD9, 0x59, 0xF2, 0x81, 0x5B, 0x16, 0xF8, 0x17, 0x98]"
  by (simp add: bn_toBuffer_size_def nat_bytes.simps Let_def)

section \<open>The public key codec\<close>

lemma toDER_uncompressed:
  assumes "pk_point pk = Some (Affine x y)"
  shows "toDER pk (Some False) = Inr ([0x04] @ bn_toBuffer_size 32 x @ bn_toBuffer_size 32 y)"
  using assms by (simp add: toDER_def getX_def getY_def Let_def)

lemma toDER_compressed:
  assumes "pk_point pk = Some (Affine x y)" and "0 \<le> y"
  shows "toDER pk (Some True) =
           Inr ((if y mod 2 = 1 then 0x03 else 0x02) # bn_toBuffer_size 32 x)"
proof -
  let ?yb = "bn_toBuffer_size 32 y"
  have "?yb \<noteq> []"
    using length_toBuffer_ge [of 32 y] by auto
  then obtain l where l: "buf_at ?yb (length ?yb - 1) = Some l"
    by (simp add: buf_at_def)
  have par: "(unat l mod 2 \<noteq> 0) = (y mod 2 = 1)"
    using last_toBuffer_parity [OF assms(2) _ l] by simp
  show ?thesis
    using assms(1) l par by (simp add: toDER_def getX_def getY_def Let_def)
qed

lemma fromDER_uncompressed:
  assumes "length xbuf = 32" and "length ybuf = 32"
  shows "fromDER dp this ([0x04] @ xbuf @ ybuf) strict =
           Inr (this\<lparr>pk_point := Some (Point_new dp (bn_fromBuffer xbuf) (bn_fromBuffer ybuf)),
                      pk_compressed := Some False\<rparr>)"
  using assms by (simp add: fromDER_def buf_at_def buf_slice_def Let_def)

text \<open>
  C2. A 65-byte buffer that starts with 0x06 or 0x07 is refused when the argument
  \<open>strict\<close> is left out, and decoded as an uncompressed key whenever the argument is
  given, whatever its value: \<open>fromDER\<close> overwrites a given \<open>strict\<close> with \<open>false\<close>. So
  \<open>strict = true\<close> decodes the hybrid key just as \<open>strict = false\<close> does.
\<close>

theorem fromDER_hybrid_any_given_strict:
  assumes len: "length buf = 65"
    and hyb: "buf_at buf 0 = Some 0x06 \<or> buf_at buf 0 = Some 0x07"
  shows "fromDER dp this buf strict =
     (if strict = None then Inl (Error ''Invalid DER format pubkey'')
      else Inr (this\<lparr>pk_point := Some (Point_new dp (bn_fromBuffer (buf_slice buf 1 33))
                                                  (bn_fromBuffer (buf_slice buf 33 65))),
                    pk_compressed := Some False\<rparr>))"
proof -
  have lens: "length (buf_slice buf 1 33) = 32" "length (buf_slice buf 33 65) = 32"
    using len by (simp_all add: buf_slice_def)
  have ne: "buf_at buf 0 \<noteq> Some 0x04" "buf_at buf 0 \<noteq> Some 0x03" "buf_at buf 0 \<noteq> Some 0x02"
    using hyb by auto
  show ?thesis
  proof (cases strict)
    case None
    then show ?thesis using hyb ne by (auto simp: fromDER_def)
  next
    case (Some b)
    then show ?thesis using hyb lens len by (simp add: fromDER_def Let_def)
  qed
qed

theorem fromDER_hybrid_strict_true_decodes:
  "\<forall>dp this. fromDER dp this (0x06 # replicate 64 0x01) (Some True) =
      Inr (this\<lparr>pk_point := Some (Point_new dp (bn_fromBuffer (replicate 32 0x01))
                                               (bn_fromBuffer (replicate 32 0x01))),
                pk_compressed := Some False\<rparr>)"
proof (intro allI)
  fix dp this
  have a: "length (0x06 # replicate 64 (0x01::byte)) = 65" by simp
  have b: "buf_at (0x06 # replicate 64 (0x01::byte)) 0 = Some 0x06 \<or>
           buf_at (0x06 # replicate 64 (0x01::byte)) 0 = Some 0x07"
    by (simp add: buf_at_def)
  have c: "buf_slice (0x06 # replicate 64 (0x01::byte)) 1 33 = replicate 32 0x01"
    by (simp add: buf_slice_def)
  have d: "buf_slice (0x06 # replicate 64 (0x01::byte)) 33 65 = replicate 32 0x01"
    by (simp add: buf_slice_def)
  show "fromDER dp this (0x06 # replicate 64 0x01) (Some True) =
      Inr (this\<lparr>pk_point := Some (Point_new dp (bn_fromBuffer (replicate 32 0x01))
                                               (bn_fromBuffer (replicate 32 0x01))),
                pk_compressed := Some False\<rparr>)"
    unfolding fromDER_hybrid_any_given_strict [OF a b, of dp this "Some True"] c d by simp
qed

text \<open>
  C3. Whatever the compressed flag of a key with an affine point, \<open>toFastBuffer\<close>
  followed by \<open>fromFastBuffer\<close> gives the point back with the flag \<open>true\<close>: the flag is
  read from the first byte of the shortened buffer, which is the DER prefix 0x04. A key
  whose flag is \<open>false\<close> does not come back as it went in.
\<close>

theorem fastbuffer_roundtrip_flag_true:
  assumes "pk_point pk = Some (Affine x y)"
    and "0 \<le> x" and "x < 2 ^ 256" and "0 \<le> y" and "y < 2 ^ 256"
  shows "\<exists>buf. toFastBuffer pk = Inr buf \<and>
           fromFastBuffer dp this buf =
             Inr (this\<lparr>pk_point := Some (Point_new dp x y), pk_compressed := Some True\<rparr>)"
proof -
  let ?xb = "bn_toBuffer_size 32 x" and ?yb = "bn_toBuffer_size 32 y"
  have "x < 256 ^ 32" "y < 256 ^ 32" using assms(3,5) by simp_all
  then have lx: "length ?xb = 32" and ly: "length ?yb = 32"
    using assms(2,4) by (simp_all add: bn_toBuffer_size_length)
  have vx: "bn_fromBuffer ?xb = x" and vy: "bn_fromBuffer ?yb = y"
    using assms(2,4) by (simp_all add: bn_fromBuffer_toBuffer)
  define flag :: byte where
    "flag = (if (if pk_compressed pk = None then True else the (pk_compressed pk)) then 1 else 0)"
  have enc: "toFastBuffer pk = Inr ([flag] @ [0x04] @ ?xb @ ?yb)"
    using assms(1) toDER_uncompressed [OF assms(1)]
    by (simp add: toFastBuffer_def Let_def flag_def)
  have rest: "buf_slice_from ([flag] @ [0x04] @ ?xb @ ?yb) 1 = [0x04] @ ?xb @ ?yb"
    by (simp add: buf_slice_from_def)
  have dec: "fromFastBuffer dp this ([flag] @ [0x04] @ ?xb @ ?yb) =
      Inr (this\<lparr>pk_point := Some (Point_new dp x y), pk_compressed := Some True\<rparr>)"
    unfolding fromFastBuffer_def rest Let_def fromDER_uncompressed [OF lx ly] vx vy
    by (simp add: buf_at_def)
  show ?thesis using enc dec by blast
qed

theorem fastbuffer_uncompressed_comes_back_compressed:
  "\<forall>hm. \<exists>buf. toFastBuffer \<lparr>pk_point = Some secp256k1_G, pk_compressed = Some False\<rparr> = Inr buf \<and>
      fromFastBuffer (secp256k1 hm) Pubkey_new buf =
        Inr \<lparr>pk_point = Some secp256k1_G, pk_compressed = Some True\<rparr>"
proof
  fix hm
  let ?x = "0x79BE667EF9DCBBAC55A06295CE870B07029BFCDB2DCE28D959F2815B16F81798 :: int"
  let ?y = "0x483ADA7726A3C4655DA4FBFC0E1108A8FD17B448A68554199C47D08FFB10D4B8 :: int"
  have p: "pk_point \<lparr>pk_point = Some secp256k1_G, pk_compressed = Some False\<rparr> = Some (Affine ?x ?y)"
    by (simp add: secp256k1_G_def)
  have new: "Point_new (secp256k1 hm) ?x ?y = secp256k1_G"
    by (simp add: secp256k1_def curve_deps_def curve_new_def secp256k1_G_def secp256k1_P_def)
  show "\<exists>buf. toFastBuffer \<lparr>pk_point = Some secp256k1_G, pk_compressed = Some False\<rparr> = Inr buf \<and>
      fromFastBuffer (secp256k1 hm) Pubkey_new buf =
        Inr \<lparr>pk_point = Some secp256k1_G, pk_compressed = Some True\<rparr>"
    using fastbuffer_roundtrip_flag_true [OF p, of "secp256k1 hm" Pubkey_new]
    by (simp add: new Pubkey_new_def)
qed

lemma fromDER_other_prefix:
  assumes "buf_at buf 0 \<noteq> Some 0x02" and "buf_at buf 0 \<noteq> Some 0x03" and "buf_at buf 0 \<noteq> Some 0x04"
    and "strict = None \<or> (buf_at buf 0 \<noteq> Some 0x06 \<and> buf_at buf 0 \<noteq> Some 0x07)"
  shows "fromDER dp this buf strict = Inl (Error ''Invalid DER format pubkey'')"
  using assms by (auto simp: fromDER_def)

lemma fromDER_uncompressed_wrong_length:
  assumes "buf_at buf 0 = Some 0x04" and "length buf \<noteq> 65"
  shows "fromDER dp this buf strict = Inl (Error ''Length of x and y must be 32 bytes'')"
  using assms by (simp add: fromDER_def Let_def)

lemma overlong_value:
  "bn_fromBuffer (buf_slice_from (0x02 # 0x00 # [0x79, 0xBE, 0x66, 0x7E, 0xF9, 0xDC, 0xBB, 0xAC, 0x55, 0xA0, 0x62, 0x95, 0xCE, 0x87, 0x0B, 0x07, 0x02, 0x9B, 0xFC, 0xDB, 0x2D, 0xCE, 0x28, 0xD9, 0x59, 0xF2, 0x81, 0x5B, 0x16, 0xF8, 0x17, 0x98]) 1) =
     0x79BE667EF9DCBBAC55A06295CE870B07029BFCDB2DCE28D959F2815B16F81798"
  by (simp add: buf_slice_from_def bn_fromBuffer_def)

lemma small_fromX: "Point_fromX (small_curve hm) False 2 = Inr (Affine 2 12)"
  by code_simp

text \<open>
  C7. A buffer that starts with 0x02 or 0x03 is decoded from whatever follows the
  prefix: the bytes are read as one integer \<open>x\<close>, of any length, and the key is the point
  \<open>Point.fromX\<close> lifts \<open>x\<close> to. Only \<open>Point.fromX\<close> can refuse; no length is checked on
  this path, unlike on the 0x04 path.
\<close>

theorem fromDER_compressed_length_unchecked:
  assumes "buf_at buf 0 = Some 0x02 \<or> buf_at buf 0 = Some 0x03"
  shows "fromDER dp this buf strict =
     (case Point_fromX dp (buf_at buf 0 = Some 0x03) (bn_fromBuffer (buf_slice_from buf 1)) of
        Inl e \<Rightarrow> Inl e
      | Inr p \<Rightarrow> Inr (this\<lparr>pk_point := Some p, pk_compressed := Some True\<rparr>))"
  using assms
  by (auto simp: fromDER_def pk_fromX_def Let_def split: sum.splits)

theorem fromDER_compressed_overlong_decodes:
  "(\<forall>dp this. fromDER dp this (0x02 # 0x00 # [0x79, 0xBE, 0x66, 0x7E, 0xF9, 0xDC, 0xBB, 0xAC, 0x55, 0xA0, 0x62, 0x95, 0xCE, 0x87, 0x0B, 0x07, 0x02, 0x9B, 0xFC, 0xDB, 0x2D, 0xCE, 0x28, 0xD9, 0x59, 0xF2, 0x81, 0x5B, 0x16, 0xF8, 0x17, 0x98]) None =
      (case Point_fromX dp False 0x79BE667EF9DCBBAC55A06295CE870B07029BFCDB2DCE28D959F2815B16F81798 of
         Inl e \<Rightarrow> Inl e
       | Inr p \<Rightarrow> Inr (this\<lparr>pk_point := Some p, pk_compressed := Some True\<rparr>))) \<and>
   (\<forall>hm. fromDER (small_curve hm) Pubkey_new [0x02, 0x00, 0x02] None =
      Inr \<lparr>pk_point = Some (Affine 2 12), pk_compressed = Some True\<rparr>)"
proof (intro conjI allI)
  fix dp this
  have p: "buf_at (0x02 # 0x00 # [0x79, 0xBE, 0x66, 0x7E, 0xF9, 0xDC, 0xBB, 0xAC, 0x55, 0xA0, 0x62, 0x95, 0xCE, 0x87, 0x0B, 0x07, 0x02, 0x9B, 0xFC, 0xDB, 0x2D, 0xCE, 0x28, 0xD9, 0x59, 0xF2, 0x81, 0x5B, 0x16, 0xF8, 0x17, 0x98]) 0 = Some 0x02 \<or>
           buf_at (0x02 # 0x00 # [0x79, 0xBE, 0x66, 0x7E, 0xF9, 0xDC, 0xBB, 0xAC, 0x55, 0xA0, 0x62, 0x95, 0xCE, 0x87, 0x0B, 0x07, 0x02, 0x9B, 0xFC, 0xDB, 0x2D, 0xCE, 0x28, 0xD9, 0x59, 0xF2, 0x81, 0x5B, 0x16, 0xF8, 0x17, 0x98]) 0 = Some 0x03"
    by (simp add: buf_at_def)
  have n: "buf_at (0x02 # 0x00 # [0x79, 0xBE, 0x66, 0x7E, 0xF9, 0xDC, 0xBB, 0xAC, 0x55, 0xA0, 0x62, 0x95, 0xCE, 0x87, 0x0B, 0x07, 0x02, 0x9B, 0xFC, 0xDB, 0x2D, 0xCE, 0x28, 0xD9, 0x59, 0xF2, 0x81, 0x5B, 0x16, 0xF8, 0x17, 0x98]) 0 \<noteq> Some (0x03 :: byte)"
    by (simp add: buf_at_def)
  show "fromDER dp this (0x02 # 0x00 # [0x79, 0xBE, 0x66, 0x7E, 0xF9, 0xDC, 0xBB, 0xAC, 0x55, 0xA0, 0x62, 0x95, 0xCE, 0x87, 0x0B, 0x07, 0x02, 0x9B, 0xFC, 0xDB, 0x2D, 0xCE, 0x28, 0xD9, 0x59, 0xF2, 0x81, 0x5B, 0x16, 0xF8, 0x17, 0x98]) None =
      (case Point_fromX dp False 0x79BE667EF9DCBBAC55A06295CE870B07029BFCDB2DCE28D959F2815B16F81798 of
         Inl e \<Rightarrow> Inl e
       | Inr p \<Rightarrow> Inr (this\<lparr>pk_point := Some p, pk_compressed := Some True\<rparr>))"
    unfolding fromDER_compressed_length_unchecked [OF p] overlong_value using n by simp
next
  fix hm
  have p: "buf_at [0x02, 0x00, 0x02] 0 = Some 0x02 \<or> buf_at [0x02, 0x00, 0x02] 0 = Some (0x03 :: byte)"
    by (simp add: buf_at_def)
  have n: "buf_at [0x02, 0x00, 0x02] 0 \<noteq> Some (0x03 :: byte)"
    by (simp add: buf_at_def)
  have v: "bn_fromBuffer (buf_slice_from [0x02, 0x00, 0x02] 1) = 2"
    by (simp add: buf_slice_from_def bn_fromBuffer_def)
  show "fromDER (small_curve hm) Pubkey_new [0x02, 0x00, 0x02] None =
      Inr \<lparr>pk_point = Some (Affine 2 12), pk_compressed = Some True\<rparr>"
    unfolding fromDER_compressed_length_unchecked [OF p] v using n
    by (simp add: small_fromX Pubkey_new_def)
qed

text \<open>
  C10. A key whose compressed flag is unset, with an affine point whose coordinates
  are nonnegative and \<open>x\<close> below \<open>2\<^sup>2\<^sup>5\<^sup>6\<close>, is serialized by \<open>toBuffer\<close> in the
  compressed form: 33 bytes, the prefix 0x03 for an odd \<open>y\<close> and 0x02 for an even one,
  then \<open>x\<close> in 32 bytes; \<open>toString\<close> is the hex form of the same bytes.
\<close>

theorem toBuffer_default_compressed:
  assumes "pk_compressed pk = None" and "pk_point pk = Some (Affine x y)"
    and "0 \<le> x" and "x < 2 ^ 256" and "0 \<le> y"
  shows "toBuffer pk = Inr ((if y mod 2 = 1 then 0x03 else 0x02) # bn_toBuffer_size 32 x) \<and>
         toString pk = Inr (toString_hex ((if y mod 2 = 1 then 0x03 else 0x02) # bn_toBuffer_size 32 x)) \<and>
         length ((if y mod 2 = 1 then 0x03 else 0x02) # bn_toBuffer_size 32 x) = 33"
proof -
  have "x < 256 ^ 32" using assms(4) by simp
  then have len: "length (bn_toBuffer_size 32 x) = 32"
    using assms(3) by (rule bn_toBuffer_size_length [rotated])
  show ?thesis
    using assms(1) toDER_compressed [OF assms(2) assms(5)] len
    by (simp add: toBuffer_def toString_def Let_def)
qed

theorem toBuffer_default_compressed_base_point:
  "toBuffer \<lparr>pk_point = Some secp256k1_G, pk_compressed = None\<rparr> =
     Inr (0x02 # [0x79, 0xBE, 0x66, 0x7E, 0xF9, 0xDC, 0xBB, 0xAC, 0x55, 0xA0, 0x62, 0x95, 0xCE, 0x87, 0x0B, 0x07, 0x02, 0x9B, 0xFC, 0xDB, 0x2D, 0xCE, 0x28, 0xD9, 0x59, 0xF2, 0x81, 0x5B, 0x16, 0xF8, 0x17, 0x98]) \<and>
   toString \<lparr>pk_point = Some secp256k1_G, pk_compressed = None\<rparr> =
     Inr ''0279be667ef9dcbbac55a06295ce870b07029bfcdb2dce28d959f2815b16f81798''"
proof -
  let ?x = "0x79BE667EF9DCBBAC55A06295CE870B07029BFCDB2DCE28D959F2815B16F81798 :: int"
  let ?y = "0x483ADA7726A3C4655DA4FBFC0E1108A8FD17B448A68554199C47D08FFB10D4B8 :: int"
  let ?pk = "\<lparr>pk_point = Some secp256k1_G, pk_compressed = None\<rparr>"
  have a: "pk_compressed ?pk = None" by simp
  have b: "pk_point ?pk = Some (Affine ?x ?y)" by (simp add: secp256k1_G_def)
  have c: "0 \<le> ?x" "?x < 2 ^ 256" "0 \<le> ?y" by simp_all
  have even: "?y mod 2 \<noteq> 1" by simp
  show ?thesis
    using toBuffer_default_compressed [OF a b c] even
    by (simp add: Gx_bytes toString_hex_def hexdigit_def)
qed

section \<open>The transaction verifier\<close>

lemma show_nat_digit: "n < 10 \<Longrightarrow> show_nat n = [''0123456789'' ! n]"
  by (subst show_nat.simps) simp

lemma first_diagnostic_append:
  "first_diagnostic (xs @ ys) =
     (case first_diagnostic xs of Some msg \<Rightarrow> Some msg | None \<Rightarrow> first_diagnostic ys)"
  by (induction xs rule: first_diagnostic.induct) simp_all

lemma check_txouts_from:
  "check_txouts dp (drop i outs) i (sum_list (map valuebn (take i outs))) =
     first_diagnostic (map (txout_violation dp outs) [i..<length outs])"
proof (induction "length outs - i" arbitrary: i)
  case 0
  then show ?case by simp
next
  case (Suc n)
  then have i: "i < length outs" by simp
  have d: "drop i outs = outs ! i # drop (Suc i) outs"
    using i by (simp add: Cons_nth_drop_Suc)
  have u: "[i..<length outs] = i # [Suc i..<length outs]"
    using i by (simp add: upt_conv_Cons)
  have t: "sum_list (map valuebn (take (Suc i) outs)) =
           sum_list (map valuebn (take i outs)) + valuebn (outs ! i)"
    using i by (simp add: take_Suc_conv_app_nth)
  have ih: "check_txouts dp (drop (Suc i) outs) (Suc i) (sum_list (map valuebn (take (Suc i) outs))) =
     first_diagnostic (map (txout_violation dp outs) [Suc i..<length outs])"
    using Suc(1) [of "Suc i"] Suc(2) by simp
  show ?case
    unfolding d u
    using ih t by (simp add: txout_violation_def Let_def)
qed

text \<open>
  The fingerprint \<open>inputid\<close> of an input, the hexadecimal spelling of the hash, a colon
  and the decimal spelling of the output index, determines the pair of the hash and the
  index: the hexadecimal spelling has no colon, and both spellings are injective.
\<close>

lemma hexdigit_nth_inj:
  assumes "a < 16" and "b < 16" and "hexdigit a = hexdigit b"
  shows "a = b"
proof -
  have d: "distinct ''0123456789abcdef''" by simp
  have l: "length ''0123456789abcdef'' = 16" by simp
  show ?thesis
    using assms nth_eq_iff_index_eq [OF d, of a b] by (simp add: hexdigit_def)
qed

lemma hexdigit_not_colon: "hexdigit d \<noteq> CHR '':''"
proof -
  have "d mod 16 < length ''0123456789abcdef''" by simp
  then have "hexdigit d \<in> set ''0123456789abcdef''"
    unfolding hexdigit_def by (rule nth_mem)
  then show ?thesis by auto
qed

lemma toString_hex_Nil: "toString_hex [] = []"
  by (simp add: toString_hex_def)

lemma toString_hex_Cons:
  "toString_hex (b # bs) = hexdigit (unat b div 16) # hexdigit (unat b mod 16) # toString_hex bs"
  by (simp add: toString_hex_def)

lemma toString_hex_no_colon: "CHR '':'' \<notin> set (toString_hex buf)"
  by (induction buf) (simp_all add: toString_hex_Nil toString_hex_Cons hexdigit_not_colon [symmetric])

lemma byte_nibbles_inj:
  assumes "hexdigit (unat a div 16) = hexdigit (unat b div 16)"
    and "hexdigit (unat a mod 16) = hexdigit (unat b mod 16)"
  shows "(a :: byte) = b"
proof -
  have la: "unat a < 256" and lb: "unat b < 256"
    using unsigned_less [of a] unsigned_less [of b] by simp_all
  have "unat a div 16 = unat b div 16"
    using assms(1) la lb by (intro hexdigit_nth_inj) simp_all
  moreover have "unat a mod 16 = unat b mod 16"
    using assms(2) by (intro hexdigit_nth_inj) simp_all
  ultimately have "unat a = unat b"
    by (metis div_mult_mod_eq)
  then show ?thesis by (simp add: word_unat_eq_iff)
qed

lemma toString_hex_inj: "toString_hex xs = toString_hex ys \<Longrightarrow> xs = ys"
proof (induction xs arbitrary: ys)
  case Nil
  then show ?case by (cases ys) (simp_all add: toString_hex_Nil toString_hex_Cons)
next
  case (Cons x xs)
  then show ?case
    by (cases ys) (auto simp: toString_hex_Nil toString_hex_Cons dest: byte_nibbles_inj)
qed

lemma show_nat_not_Nil: "show_nat n \<noteq> []"
  by (subst show_nat.simps) simp

lemma decimal_digit_inj:
  assumes "a < 10" and "b < 10" and "''0123456789'' ! a = ''0123456789'' ! b"
  shows "a = b"
proof -
  have d: "distinct ''0123456789''" by simp
  show ?thesis
    using assms nth_eq_iff_index_eq [OF d, of a b] by simp
qed

lemma show_nat_inj: "show_nat n = show_nat m \<Longrightarrow> n = m"
proof (induction n arbitrary: m rule: show_nat.induct)
  case (1 n)
  show ?case
  proof (cases "n < 10")
    case True
    show ?thesis
    proof (cases "m < 10")
      case m: True
      then show ?thesis
        using True "1.prems" by (auto simp: show_nat_digit intro: decimal_digit_inj)
    next
      case False
      then have "show_nat m = show_nat (m div 10) @ [''0123456789'' ! (m mod 10)]"
        by (subst show_nat.simps) simp
      then have "length (show_nat m) \<ge> 2"
        using show_nat_not_Nil [of "m div 10"] by (cases "show_nat (m div 10)") simp_all
      moreover have "length (show_nat n) = 1"
        using True by (simp add: show_nat_digit)
      ultimately show ?thesis
        using "1.prems" by simp
    qed
  next
    case False
    then have n: "show_nat n = show_nat (n div 10) @ [''0123456789'' ! (n mod 10)]"
      by (subst show_nat.simps) simp
    show ?thesis
    proof (cases "m < 10")
      case True
      have "length (show_nat n) \<ge> 2"
        using n show_nat_not_Nil [of "n div 10"] by (cases "show_nat (n div 10)") simp_all
      moreover have "length (show_nat m) = 1"
        using True by (simp add: show_nat_digit)
      ultimately show ?thesis
        using "1.prems" by simp
    next
      case m: False
      then have "show_nat m = show_nat (m div 10) @ [''0123456789'' ! (m mod 10)]"
        by (subst show_nat.simps) simp
      then have e: "show_nat (n div 10) = show_nat (m div 10)"
        and d: "''0123456789'' ! (n mod 10) = ''0123456789'' ! (m mod 10)"
        using n "1.prems" by simp_all
      have "n div 10 = m div 10"
        using "1.IH" [OF False e] .
      moreover have "n mod 10 = m mod 10"
        using d by (intro decimal_digit_inj) simp_all
      ultimately show ?thesis
        by (metis div_mult_mod_eq)
    qed
  qed
qed

lemma split_at_separator:
  assumes "c \<notin> set xs" and "c \<notin> set xs'" and "xs @ c # ys = xs' @ c # ys'"
  shows "xs = xs' \<and> ys = ys'"
  using assms
proof (induction xs arbitrary: xs')
  case Nil
  then show ?case by (cases xs') auto
next
  case (Cons x xs)
  then show ?case by (cases xs') auto
qed

text \<open>
  Two inputs have the same fingerprint exactly when they spend the same output.
\<close>

lemma inputid_eq_iff: "inputid a = inputid b \<longleftrightarrow> prevout a = prevout b"
proof
  assume "inputid a = inputid b"
  then have "toString_hex (txhashbuf a) @ CHR '':'' # show_nat (txoutnum a) =
             toString_hex (txhashbuf b) @ CHR '':'' # show_nat (txoutnum b)"
    by (simp add: inputid_def)
  then have "toString_hex (txhashbuf a) = toString_hex (txhashbuf b) \<and>
             show_nat (txoutnum a) = show_nat (txoutnum b)"
    by (intro split_at_separator [where c = "CHR '':''"]) (simp_all add: toString_hex_no_colon)
  then show "prevout a = prevout b"
    by (simp add: prevout_def toString_hex_inj show_nat_inj)
next
  assume "prevout a = prevout b"
  then show "inputid a = inputid b"
    by (simp add: prevout_def inputid_def)
qed

lemma seen_Suc:
  "i < length ins \<Longrightarrow> (seen ins i)(inputid (ins ! i) \<mapsto> True) = seen ins (Suc i)"
  by (auto simp: seen_def take_Suc_conv_app_nth fun_eq_iff)

text \<open>
  A fingerprint is a key of the object \<open>txinmap\<close> after \<open>i\<close> iterations exactly when one of
  the first \<open>i\<close> inputs spends the same output.
\<close>

lemma seen_prevout:
  "seen ins i (inputid x) \<noteq> None \<longleftrightarrow> prevout x \<in> set (map prevout (take i ins))"
proof -
  have "seen ins i (inputid x) \<noteq> None \<longleftrightarrow> (\<exists>y \<in> set (take i ins). inputid x = inputid y)"
    by (auto simp: seen_def)
  also have "\<dots> \<longleftrightarrow> (\<exists>y \<in> set (take i ins). prevout x = prevout y)"
    by (simp add: inputid_eq_iff)
  also have "\<dots> \<longleftrightarrow> prevout x \<in> set (map prevout (take i ins))"
    by auto
  finally show ?thesis .
qed

lemma check_duplicates_from:
  "check_duplicates (drop i ins) i (seen ins i) =
     first_diagnostic (map (duplicate_violation ins) [i..<length ins])"
proof (induction "length ins - i" arbitrary: i)
  case 0
  then show ?case by simp
next
  case (Suc n)
  then have i: "i < length ins" by simp
  have d: "drop i ins = ins ! i # drop (Suc i) ins"
    using i by (simp add: Cons_nth_drop_Suc)
  have u: "[i..<length ins] = i # [Suc i..<length ins]"
    using i by (simp add: upt_conv_Cons)
  have ih: "check_duplicates (drop (Suc i) ins) (Suc i) (seen ins (Suc i)) =
     first_diagnostic (map (duplicate_violation ins) [Suc i..<length ins])"
    using Suc(1) [of "Suc i"] Suc(2) by simp
  show ?case
    unfolding d u
    using ih seen_prevout [of ins i "ins ! i"] seen_Suc [OF i]
    by (simp add: duplicate_violation_def)
qed


lemma check_null_inputs_from:
  "check_null_inputs dp (drop i ins) i =
     first_diagnostic (map (null_violation dp ins) [i..<length ins])"
proof (induction "length ins - i" arbitrary: i)
  case 0
  then show ?case by simp
next
  case (Suc n)
  then have i: "i < length ins" by simp
  have d: "drop i ins = ins ! i # drop (Suc i) ins"
    using i by (simp add: Cons_nth_drop_Suc)
  have u: "[i..<length ins] = i # [Suc i..<length ins]"
    using i by (simp add: upt_conv_Cons)
  have ih: "check_null_inputs dp (drop (Suc i) ins) (Suc i) =
     first_diagnostic (map (null_violation dp ins) [Suc i..<length ins])"
    using Suc(1) [of "Suc i"] Suc(2) by simp
  show ?case
    unfolding d u using ih by (simp add: null_violation_def)
qed

text \<open>
  The duplicate loop of \<open>checkstr\<close> finds nothing exactly when no two inputs spend the same
  output.
\<close>

lemma first_diagnostic_None_iff:
  "first_diagnostic xs = None \<longleftrightarrow> (\<forall>x \<in> set xs. x = None)"
  by (induction xs rule: first_diagnostic.induct) simp_all

lemma distinct_map_iff_no_earlier:
  "distinct (map f xs) \<longleftrightarrow> (\<forall>i < length xs. f (xs ! i) \<notin> set (map f (take i xs)))"
proof (induction xs rule: rev_induct)
  case Nil
  then show ?case by simp
next
  case (snoc x xs)
  have "(\<forall>i < length (xs @ [x]). f ((xs @ [x]) ! i) \<notin> set (map f (take i (xs @ [x])))) \<longleftrightarrow>
        (\<forall>i < length xs. f (xs ! i) \<notin> set (map f (take i xs))) \<and> f x \<notin> set (map f xs)"
    by (auto simp: less_Suc_eq nth_append)
  then show ?case
    using snoc by auto
qed

lemma check_duplicates_None_iff:
  "check_duplicates ins 0 Map.empty = None \<longleftrightarrow> distinct (map prevout ins)"
proof -
  have "seen ins 0 = Map.empty"
    by (simp add: seen_def)
  then have "check_duplicates ins 0 Map.empty =
      first_diagnostic (map (duplicate_violation ins) [0..<length ins])"
    using check_duplicates_from [of 0 ins] by simp
  moreover have "first_diagnostic (map (duplicate_violation ins) [0..<length ins]) = None \<longleftrightarrow>
      (\<forall>i < length ins. duplicate_violation ins i = None)"
    by (auto simp: first_diagnostic_None_iff)
  moreover have "(\<forall>i < length ins. duplicate_violation ins i = None) \<longleftrightarrow>
      (\<forall>i < length ins. prevout (ins ! i) \<notin> set (map prevout (take i ins)))"
    by (auto simp: duplicate_violation_def)
  ultimately show ?thesis
    using distinct_map_iff_no_earlier [of prevout ins] by simp
qed

text \<open>
  C8. \<open>checkstr\<close> returns the diagnostic of the first violation in the canonical order
  (no inputs, no outputs, the serialized size, the outputs one by one with their
  negative value, their value over \<open>MAX_MONEY\<close> and the running total over \<open>MAX_MONEY\<close>,
  the duplicate inputs by the index of the later occurrence, and last the coinbase script
  size or the null inputs), and \<open>false\<close> when there is none. An input is a duplicate
  when an input before it spends the same output, that is, has the same previous
  transaction hash and the same output index.
\<close>

theorem checkstr_first_violation:
  "checkstr dp this = checkstr_spec dp this"
proof -
  have a: "check_txouts dp (txouts (txv_tx this)) 0 0 =
     first_diagnostic (map (txout_violation dp (txouts (txv_tx this))) [0..<length (txouts (txv_tx this))])"
    using check_txouts_from [of dp 0 "txouts (txv_tx this)"] by simp
  have "seen (txins (txv_tx this)) 0 = Map.empty"
    by (simp add: seen_def)
  then have b: "check_duplicates (txins (txv_tx this)) 0 Map.empty =
     first_diagnostic (map (duplicate_violation (txins (txv_tx this))) [0..<length (txins (txv_tx this))])"
    using check_duplicates_from [of 0 "txins (txv_tx this)"] by simp
  have c: "check_null_inputs dp (txins (txv_tx this)) 0 =
     first_diagnostic (map (null_violation dp (txins (txv_tx this))) [0..<length (txins (txv_tx this))])"
    using check_null_inputs_from [of dp 0 "txins (txv_tx this)"] by simp
  show ?thesis
    unfolding checkstr_def checkstr_spec_def Let_def a b c
    by (simp add: first_diagnostic_append split: option.splits)
qed

text \<open>
  Two inputs that spend the same output give the diagnostic of input 1; two inputs that
  spend different outputs, \<open>(11..11, 0)\<close> and \<open>(22..22, 7)\<close>, pass every check.
\<close>

theorem checkstr_duplicate_input_example:
  "\<forall>interp m.
     checkstr_spec (mainnet interp) \<lparr>txv_tx = dup_tx, txoutmap = m\<rparr> =
       Some ''transaction input 1 duplicate input'' \<and>
     checkstr (mainnet interp) \<lparr>txv_tx = dup_tx, txoutmap = m\<rparr> =
       Some ''transaction input 1 duplicate input'' \<and>
     checkstr_spec (mainnet interp) \<lparr>txv_tx = two_in_tx, txoutmap = m\<rparr> = None \<and>
     checkstr (mainnet interp) \<lparr>txv_tx = two_in_tx, txoutmap = m\<rparr> = None"
proof (intro allI)
  fix interp m
  have up: "[0..<2] = [0, 1]"
    by (simp add: upt_conv_Cons)
  have d: "checkstr_spec (mainnet interp) \<lparr>txv_tx = dup_tx, txoutmap = m\<rparr> =
       Some ''transaction input 1 duplicate input''"
    by (simp add: checkstr_spec_def dup_tx_def mainnet_def tx_toBuffer_wire_def
        txin_toBuffer_def txout_toBuffer_def uint_le_def varint_buf_def show_nat_digit
        txout_violation_def duplicate_violation_def prevout_def isCoinbase_wire_def up Let_def)
  have t: "checkstr_spec (mainnet interp) \<lparr>txv_tx = two_in_tx, txoutmap = m\<rparr> = None"
    by (simp add: checkstr_spec_def two_in_tx_def mainnet_def tx_toBuffer_wire_def
        txin_toBuffer_def txout_toBuffer_def uint_le_def varint_buf_def show_nat_digit
        txout_violation_def duplicate_violation_def prevout_def isCoinbase_wire_def
        null_violation_def hasNullInput_wire_def up Let_def)
  show "checkstr_spec (mainnet interp) \<lparr>txv_tx = dup_tx, txoutmap = m\<rparr> =
       Some ''transaction input 1 duplicate input'' \<and>
     checkstr (mainnet interp) \<lparr>txv_tx = dup_tx, txoutmap = m\<rparr> =
       Some ''transaction input 1 duplicate input'' \<and>
     checkstr_spec (mainnet interp) \<lparr>txv_tx = two_in_tx, txoutmap = m\<rparr> = None \<and>
     checkstr (mainnet interp) \<lparr>txv_tx = two_in_tx, txoutmap = m\<rparr> = None"
    using d t
      checkstr_first_violation [of "mainnet interp" "\<lparr>txv_tx = dup_tx, txoutmap = m\<rparr>"]
      checkstr_first_violation [of "mainnet interp" "\<lparr>txv_tx = two_in_tx, txoutmap = m\<rparr>"]
    by simp
qed

text \<open>
  When the first two inputs refer to the same output and the checks before the
  duplicate check pass, the diagnostic names input 1.
\<close>

lemma checkstr_duplicate_of_first_input:
  assumes ins: "txins (txv_tx this) = a # b # rest"
    and same: "txhashbuf a = txhashbuf b" "txoutnum a = txoutnum b"
    and c1: "txinsvi (txv_tx this) \<noteq> 0"
    and c2: "txouts (txv_tx this) \<noteq> []" "txoutsvi (txv_tx this) \<noteq> 0"
    and c3: "length (tx_toBuffer dp (txv_tx this)) \<le> MAX_BLOCK_SIZE dp"
    and c4: "check_txouts dp (txouts (txv_tx this)) 0 0 = None"
  shows "checkstr dp this = Some ''transaction input 1 duplicate input''"
proof -
  have "inputid a = inputid b"
    using same by (simp add: inputid_def)
  then have "check_duplicates (txins (txv_tx this)) 0 Map.empty =
      Some ''transaction input 1 duplicate input''"
    using ins by (simp add: show_nat_digit)
  then show ?thesis
    using ins c1 c2 c3 c4 by (simp add: checkstr_def Let_def)
qed

text \<open>
  The code itself, evaluated on the transaction with two different outputs spent: the two
  fingerprints differ, and \<open>checkstr\<close> returns \<open>false\<close>.
\<close>

lemma checkstr_distinct_inputs_example:
  "checkstr (mainnet interp) \<lparr>txv_tx = two_in_tx, txoutmap = m\<rparr> = None"
  by (simp add: checkstr_def two_in_tx_def mainnet_def tx_toBuffer_wire_def
      txin_toBuffer_def txout_toBuffer_def uint_le_def varint_buf_def
      inputid_eq_iff prevout_def isCoinbase_wire_def hasNullInput_wire_def Let_def)

lemma verifystr_loop_missing:
  assumes "i \<le> nin" and "nin < i + left"
    and "\<forall>j. i \<le> j \<and> j < nin \<longrightarrow> verifynin dp this j flags = Inr True"
    and "verifynin dp this nin flags = Inl TypeError"
  shows "verifystr_loop dp this flags i left = Inl TypeError"
  using assms
proof (induction left arbitrary: i)
  case 0
  then show ?case by simp
next
  case (Suc left)
  show ?case
  proof (cases "i = nin")
    case True
    then show ?thesis using Suc.prems(4) by simp
  next
    case False
    then have lt: "i < nin" using Suc.prems(1) by simp
    then have ok: "verifynin dp this i flags = Inr True"
      using Suc.prems(3) by simp
    have "verifystr_loop dp this flags (Suc i) left = Inl TypeError"
      using Suc.IH [of "Suc i"] Suc.prems lt by simp
    then show ?thesis using ok by simp
  qed
qed

text \<open>
  C4. When the output an input refers to is missing from the UTXO map, the inputs
  before it verify and \<open>checkstr\<close> has no complaint, then \<open>verifynin\<close>, \<open>verifystr\<close> and
  \<open>verify\<close> all throw (the \<open>TypeError\<close> of reading \<open>.script\<close> of \<open>undefined\<close>): none of them
  returns a diagnostic or \<open>false\<close>.
\<close>

theorem verify_throws_on_missing_prevout:
  assumes "nin < length (txins (txv_tx this))"
    and "txoutmap this (txhashbuf (txins (txv_tx this) ! nin), txoutnum (txins (txv_tx this) ! nin)) = None"
    and "\<forall>j < nin. verifynin dp this j flags = Inr True"
    and "checkstr dp this = None"
  shows "verifynin dp this nin flags = Inl TypeError \<and>
         verifystr dp this flags = Inl TypeError \<and>
         verify dp this flags = Inl TypeError"
proof -
  have a: "verifynin dp this nin flags = Inl TypeError"
    using assms(1,2) by (simp add: verifynin_def Let_def)
  have b: "verifystr dp this flags = Inl TypeError"
    unfolding verifystr_def
    using assms(1,3) a by (intro verifystr_loop_missing [where nin = nin]) simp_all
  show ?thesis using a b assms(4) by (simp add: verify_def)
qed

theorem verify_throws_on_empty_utxo_map:
  "\<forall>interp flags. Txverifier_verify (mainnet interp) one_in_tx Map.empty flags = Inl TypeError"
proof (intro allI)
  fix interp flags
  let ?v = "\<lparr>txv_tx = one_in_tx, txoutmap = Map.empty\<rparr>"
  have a: "0 < length (txins (txv_tx ?v))" by (simp add: one_in_tx_def)
  have b: "txoutmap ?v (txhashbuf (txins (txv_tx ?v) ! 0), txoutnum (txins (txv_tx ?v) ! 0)) = None"
    by simp
  have c: "\<forall>j < 0. verifynin (mainnet interp) ?v j flags = Inr True" by simp
  have d: "checkstr (mainnet interp) ?v = None"
    by (simp add: checkstr_def one_in_tx_def mainnet_def tx_toBuffer_wire_def txin_toBuffer_def
        txout_toBuffer_def uint_le_def varint_buf_def show_nat_digit Let_def inputid_def
        isCoinbase_wire_def hasNullInput_wire_def)
  show "Txverifier_verify (mainnet interp) one_in_tx Map.empty flags = Inl TypeError"
    using verify_throws_on_missing_prevout [OF a b c d] by (simp add: Txverifier_verify_def)
qed

section \<open>The ECDSA engine\<close>

lemma bn_fromBuffer_nonneg: "0 \<le> bn_fromBuffer buf"
proof -
  have "0 \<le> a \<Longrightarrow> 0 \<le> foldl (\<lambda>a b. a * 256 + uint b) a buf" for a :: int
    by (induction buf arbitrary: a) simp_all
  then show ?thesis by (simp add: bn_fromBuffer_def)
qed

lemma detK_loop_rounds:
  assumes "0 \<le> T"
  shows "detK_loop dp fuel i badrs k v T = rfc6979_rounds dp fuel (badrs - i) k v T"
  using assms
proof (induction fuel arbitrary: i k v T)
  case 0
  then show ?case by auto
next
  case (Suc fuel)
  have c: "(i < badrs \<or> \<not> (T < getN dp \<and> T > 0)) = (T \<ge> getN dp \<or> T = 0 \<or> badrs - i > 0)"
    using Suc.prems by auto
  have s: "badrs - i - 1 = badrs - Suc i" by simp
  show ?case
    using Suc.IH [OF bn_fromBuffer_nonneg] c s
    by (simp add: Let_def HMAC_def del: One_nat_def)
qed

text \<open>
  C5. \<open>deterministicK\<close> computes what the stated variant of RFC 6979 computes: from
  \<open>V = 01 ... 01\<close> and \<open>K = 00 ... 00\<close>, \<open>K \<leftarrow> HMAC (K, V || 00 || d || h)\<close>, \<open>V \<leftarrow> HMAC (K, V)\<close>,
  \<open>K \<leftarrow> HMAC (K, V || 01 || d || h)\<close>, then \<open>V \<leftarrow> HMAC (K, V)\<close> twice, \<open>T\<close> the integer of \<open>V\<close>;
  and while \<open>T \<ge> N\<close>, \<open>T = 0\<close> or the retry budget (\<open>badrs\<close> at the start, one less after
  every round) is not spent, \<open>K \<leftarrow> HMAC (K, V || 00)\<close> and \<open>V \<leftarrow> HMAC (K, V)\<close> twice. With
  the same bound on the number of rounds, the code and the procedure return the same
  \<open>k\<close>, or are both still running.
\<close>

theorem deterministicK_follows_rfc6979_variant:
  assumes "ec_keypair this = Some kp" and "kp_privkey kp = Some pv"
    and "ec_hashbuf this = Some h"
  shows "deterministicK dp fuel this badrs =
     map_option (\<lambda>T. Inr (this\<lparr>ec_k := Some T\<rparr>))
       (rfc6979_spec dp fuel (bn_toBuffer_size 32 (privkey_bn pv)) h
          (case badrs of None \<Rightarrow> 0 | Some b \<Rightarrow> b))"
  using assms
  by (simp add: deterministicK_def rfc6979_spec_def detK_init_def Let_def HMAC_def
      detK_loop_rounds [OF bn_fromBuffer_nonneg] split: option.splits)

lemma ones_value:
  "bn_fromBuffer (replicate 32 0x01) =
     0x0101010101010101010101010101010101010101010101010101010101010101"
  by code_simp

lemma detK_constant_hash:
  "deterministicK (secp256k1 (\<lambda>data key. replicate 32 0x01)) 2 signing_example (Some 2) =
     Some (Inr (signing_example\<lparr>ec_k :=
       Some 0x0101010101010101010101010101010101010101010101010101010101010101\<rparr>))"
  by (simp add: deterministicK_def detK_init_def signing_example_def ECDSA_new_def secp256k1_def
      curve_deps_def Let_def ones_value secp256k1_N_def numeral_2_eq_2)

lemma detK_constant_hash_short:
  "deterministicK (secp256k1 (\<lambda>data key. replicate 32 0x01)) 1 signing_example (Some 2) = None"
  by (simp add: deterministicK_def detK_init_def signing_example_def ECDSA_new_def secp256k1_def
      curve_deps_def Let_def ones_value secp256k1_N_def)

theorem deterministicK_example:
  "(\<forall>hm fuel badrs. deterministicK (secp256k1 hm) fuel signing_example badrs =
      map_option (\<lambda>T. Inr (signing_example\<lparr>ec_k := Some T\<rparr>))
        (rfc6979_spec (secp256k1 hm) fuel (bn_toBuffer_size 32 1) (0x10 # replicate 31 0)
           (case badrs of None \<Rightarrow> 0 | Some b \<Rightarrow> b))) \<and>
   rfc6979_spec (secp256k1 (\<lambda>data key. replicate 32 0x01)) 2 (bn_toBuffer_size 32 1)
      (0x10 # replicate 31 0) 2 =
     Some 0x0101010101010101010101010101010101010101010101010101010101010101 \<and>
   rfc6979_spec (secp256k1 (\<lambda>data key. replicate 32 0x01)) 1 (bn_toBuffer_size 32 1)
      (0x10 # replicate 31 0) 2 = None"
proof -
  have kp: "ec_keypair signing_example =
      Some \<lparr>kp_privkey = Some \<lparr>privkey_bn = 1, privkey_compressed = Some True\<rparr>,
            kp_pubkey = Some \<lparr>pk_point = Some secp256k1_G, pk_compressed = Some True\<rparr>\<rparr>"
    by (simp add: signing_example_def ECDSA_new_def)
  have pv: "kp_privkey \<lparr>kp_privkey = Some \<lparr>privkey_bn = 1, privkey_compressed = Some True\<rparr>,
            kp_pubkey = Some \<lparr>pk_point = Some secp256k1_G, pk_compressed = Some True\<rparr>\<rparr> =
      Some \<lparr>privkey_bn = 1, privkey_compressed = Some True\<rparr>"
    by simp
  have h: "ec_hashbuf signing_example = Some (0x10 # replicate 31 0)"
    by (simp add: signing_example_def ECDSA_new_def)
  note t = deterministicK_follows_rfc6979_variant [OF kp pv h, simplified]
  have a: "rfc6979_spec (secp256k1 (\<lambda>data key. replicate 32 0x01)) 2 (bn_toBuffer_size 32 1)
      (0x10 # replicate 31 0) 2 =
     Some 0x0101010101010101010101010101010101010101010101010101010101010101"
    using t [of "secp256k1 (\<lambda>data key. replicate 32 0x01)" 2 "Some 2"] detK_constant_hash
    by (cases "rfc6979_spec (secp256k1 (\<lambda>data key. replicate 32 0x01)) 2 (bn_toBuffer_size 32 1)
      (0x10 # replicate 31 0) 2") (auto dest: arg_cong [where f = ec_k])
  have b: "rfc6979_spec (secp256k1 (\<lambda>data key. replicate 32 0x01)) 1 (bn_toBuffer_size 32 1)
      (0x10 # replicate 31 0) 2 = None"
    using t [of "secp256k1 (\<lambda>data key. replicate 32 0x01)" 1 "Some 2"] detK_constant_hash_short
    by simp
  show ?thesis using t a b by simp
qed


lemma bn_mod_bounds:
  assumes "0 < n"
  shows "bn_mod a n < n" and "- n < bn_mod a n"
proof -
  have m: "0 \<le> \<bar>a\<bar> mod \<bar>n\<bar>" "\<bar>a\<bar> mod \<bar>n\<bar> < n"
    using assms by simp_all
  have "\<bar>bn_mod a n\<bar> = \<bar>sgn a\<bar> * (\<bar>a\<bar> mod \<bar>n\<bar>)"
    using m(1) by (simp add: bn_mod_def abs_mult)
  also have "\<dots> \<le> \<bar>a\<bar> mod \<bar>n\<bar>"
    using m(1) by (cases "a = 0") (simp_all add: abs_sgn_eq)
  finally have "\<bar>bn_mod a n\<bar> < n"
    using m(2) by linarith
  then show "bn_mod a n < n" and "- n < bn_mod a n"
    by linarith+
qed

lemma sign_loop_range:
  assumes "sign_loop dp fuel this badrs e d = Some (Inr (this', r, s))"
  shows "0 < r \<and> 0 < s \<and>
         (\<exists>k qx. ec_k this' = Some k \<and> getX (mul dp (getG dp) k) = Inr qx \<and>
            r = bn_mod qx (getN dp) \<and>
            s = bn_mod (invm dp k (getN dp) * (e + d * r)) (getN dp))"
  using assms
proof (induction fuel arbitrary: this badrs)
  case 0
  then show ?case by simp
next
  case (Suc fuel)
  show ?case
    using Suc.prems Suc.IH
    by (auto simp: Let_def split: option.splits sum.splits if_splits)
qed

lemma lowS_bound_half: "secp256k1_N div 2 = lowS_bound"
  by (simp add: secp256k1_N_def lowS_bound_def)

text \<open>
  C6. Whenever \<open>sign\<close> returns on the secp256k1 order, the signature it stores has
  \<open>0 < s \<le> N div 2\<close>: with \<open>s\<close> the value the loop computed, the stored value is \<open>N - s\<close>
  when \<open>s\<close> exceeds the literal bound of the code, and \<open>s\<close> otherwise.
\<close>

theorem sign_low_s:
  assumes N: "getN dp = secp256k1_N"
    and sg: "sign dp fuel this = Some (Inr this')"
  shows "\<exists>kp pv h t r s sg.
           ec_keypair this = Some kp \<and> kp_privkey kp = Some pv \<and> ec_hashbuf this = Some h \<and>
           sign_loop dp fuel this 0 (bn_fromBuffer_endian h (ec_endian this)) (privkey_bn pv) =
             Some (Inr (t, r, s)) \<and>
           ec_sig this' = Some sg \<and> sig_r sg = r \<and> 0 < r \<and> 0 < s \<and> s < secp256k1_N \<and>
           sig_s sg = (if s > lowS_bound then secp256k1_N - s else s) \<and>
           0 < sig_s sg \<and> sig_s sg \<le> secp256k1_N div 2"
proof -
  obtain kp where kp: "ec_keypair this = Some kp"
    using sg by (cases "ec_keypair this") (simp_all add: sign_def)
  obtain pv where pv: "kp_privkey kp = Some pv"
    using sg kp by (cases "kp_privkey kp") (simp_all add: sign_def)
  obtain hashbuf where hb: "ec_hashbuf this = Some hashbuf"
    using sg kp pv by (cases "ec_hashbuf this") (simp_all add: sign_def)
  have len: "length hashbuf = 32"
    using sg kp pv hb by (simp add: sign_def split: if_splits)
  define e where "e = bn_fromBuffer_endian hashbuf (ec_endian this)"
  have sg': "(case sign_loop dp fuel this 0 e (privkey_bn pv) of
               None \<Rightarrow> None
             | Some (Inl err) \<Rightarrow> Some (Inl err)
             | Some (Inr (t, r, s)) \<Rightarrow>
                (case kp_pubkey kp of
                   None \<Rightarrow> Some (Inl TypeError)
                 | Some pub \<Rightarrow>
                    Some (Inr (t\<lparr>ec_sig :=
                      Some \<lparr>sig_r = r, sig_s = enforce_lowS dp s, sig_recovery = None,
                            sig_compressed = pk_compressed pub\<rparr>\<rparr>)))) = Some (Inr this')"
    using sg kp pv hb len by (simp add: sign_def Let_def e_def)
  obtain t r s where loop: "sign_loop dp fuel this 0 e (privkey_bn pv) = Some (Inr (t, r, s))"
    using sg' by (cases "sign_loop dp fuel this 0 e (privkey_bn pv)")
      (auto split: sum.splits)
  obtain pub where pub: "kp_pubkey kp = Some pub"
    using sg' loop by (cases "kp_pubkey kp") simp_all
  have res: "this' = t\<lparr>ec_sig := Some \<lparr>sig_r = r, sig_s = enforce_lowS dp s, sig_recovery = None,
                                      sig_compressed = pk_compressed pub\<rparr>\<rparr>"
    using sg' loop pub by simp
  have pos: "0 < r" "0 < s"
    and s: "\<exists>k. s = bn_mod k (getN dp)"
    using sign_loop_range [OF loop] by auto
  have "0 < secp256k1_N" by (simp add: secp256k1_N_def)
  then have lt: "s < secp256k1_N"
    using s N bn_mod_bounds(1) by auto
  have low: "enforce_lowS dp s = (if s > lowS_bound then secp256k1_N - s else s)"
    by (simp add: enforce_lowS_def N)
  have b: "2 * lowS_bound + 1 = secp256k1_N"
    by (simp add: secp256k1_N_def lowS_bound_def)
  have "0 < enforce_lowS dp s \<and> enforce_lowS dp s \<le> lowS_bound"
    using pos lt b unfolding low by auto
  then have fin: "0 < enforce_lowS dp s" "enforce_lowS dp s \<le> secp256k1_N div 2"
    by (simp_all add: lowS_bound_half)
  let ?sg = "\<lparr>sig_r = r, sig_s = enforce_lowS dp s, sig_recovery = None,
              sig_compressed = pk_compressed pub\<rparr>"
  have "ec_keypair this = Some kp \<and> kp_privkey kp = Some pv \<and> ec_hashbuf this = Some hashbuf \<and>
        sign_loop dp fuel this 0 (bn_fromBuffer_endian hashbuf (ec_endian this)) (privkey_bn pv) =
          Some (Inr (t, r, s)) \<and>
        ec_sig this' = Some ?sg \<and> sig_r ?sg = r \<and> 0 < r \<and> 0 < s \<and> s < secp256k1_N \<and>
        sig_s ?sg = (if s > lowS_bound then secp256k1_N - s else s) \<and>
        0 < sig_s ?sg \<and> sig_s ?sg \<le> secp256k1_N div 2"
    using kp pv hb loop res pos lt low fin by (simp add: e_def)
  then show ?thesis by blast
qed


lemma curve_mul_zero: "curve_mul p a 0 = Infinity"
  by (subst curve_mul.simps) simp

lemma curve_add_Infinity: "curve_add p a Infinity = a"
  by (cases a) (simp_all add: curve_add_def)

lemma curve_mul_one: "curve_mul p a 1 = a"
  by (subst curve_mul.simps) (simp add: curve_mul_zero curve_add_Infinity)

lemma invm_euclid_one:
  assumes "1 < n"
  shows "invm_euclid 1 n = 1"
proof -
  have "xgcd n 1 0 1 = xgcd 1 0 1 (- n)"
    by (subst xgcd.simps) simp
  also have "\<dots> = 1"
    by (subst xgcd.simps) simp
  finally show ?thesis
    using assms by (simp add: invm_euclid_def)
qed

lemma bn_fromBuffer_Cons_zeros: "bn_fromBuffer (b # replicate n 0) = uint b * 256 ^ n"
  using bn_fromBuffer_append [of "[b]" "replicate n 0"]
  by (simp add: bn_fromBuffer_zeros) (simp add: bn_fromBuffer_def)

lemma sign_example:
  "sign (secp256k1 hm) 1 signing_example =
     Some (Inr (signing_example\<lparr>ec_sig := Some
       \<lparr>sig_r = 0x79BE667EF9DCBBAC55A06295CE870B07029BFCDB2DCE28D959F2815B16F81798,
        sig_s = 0x7641998106234453aa5f9d6a3178f4f7b812e00b817a776265dfdd31b93e29a9,
        sig_recovery = None, sig_compressed = Some True\<rparr>\<rparr>))"
proof -
  have inv: "invm_euclid 1 0xFFFFFFFFFFFFFFFFFFFFFFFFFFFFFFFEBAAEDCE6AF48A03BBFD25E8CD0364141 = 1"
    by (rule invm_euclid_one) simp
  have e: "bn_fromBuffer_endian (0x10 # replicate 31 0) None = 16 * 256 ^ 31"
    by (simp add: bn_fromBuffer_endian_def bn_fromBuffer_Cons_zeros)
  have loop: "sign_loop (secp256k1 hm) 1 signing_example 0 (16 * 256 ^ 31) 1 =
      Some (Inr (signing_example,
        0x79BE667EF9DCBBAC55A06295CE870B07029BFCDB2DCE28D959F2815B16F81798,
        0x89be667ef9dcbbac55a06295ce870b07029bfcdb2dce28d959f2815b16f81798))"
    unfolding One_nat_def sign_loop.simps
    by (simp add: signing_example_def ECDSA_new_def secp256k1_def curve_deps_def curve_mul_one
        inv getX_def secp256k1_G_def bn_mod_def secp256k1_N_def Let_def)
  show ?thesis
    unfolding sign_def
    using loop e
    by (simp add: signing_example_def ECDSA_new_def enforce_lowS_def lowS_bound_def Let_def
        secp256k1_def curve_deps_def secp256k1_N_def)
qed


theorem sign_low_s_example:
  "\<forall>hm. sign (secp256k1 hm) 1 signing_example =
     Some (Inr (signing_example\<lparr>ec_sig := Some
       \<lparr>sig_r = 0x79BE667EF9DCBBAC55A06295CE870B07029BFCDB2DCE28D959F2815B16F81798,
        sig_s = 0x7641998106234453aa5f9d6a3178f4f7b812e00b817a776265dfdd31b93e29a9,
        sig_recovery = None, sig_compressed = Some True\<rparr>\<rparr>)) \<and>
     (0x7641998106234453aa5f9d6a3178f4f7b812e00b817a776265dfdd31b93e29a9 :: int) \<le> secp256k1_N div 2"
proof
  fix hm
  have n: "getN (secp256k1 hm) = secp256k1_N"
    by (simp add: secp256k1_def curve_deps_def)
  show "sign (secp256k1 hm) 1 signing_example =
     Some (Inr (signing_example\<lparr>ec_sig := Some
       \<lparr>sig_r = 0x79BE667EF9DCBBAC55A06295CE870B07029BFCDB2DCE28D959F2815B16F81798,
        sig_s = 0x7641998106234453aa5f9d6a3178f4f7b812e00b817a776265dfdd31b93e29a9,
        sig_recovery = None, sig_compressed = Some True\<rparr>\<rparr>)) \<and>
     (0x7641998106234453aa5f9d6a3178f4f7b812e00b817a776265dfdd31b93e29a9 :: int) \<le> secp256k1_N div 2"
    using sign_low_s [OF n sign_example [of hm]] sign_example [of hm] by auto
qed


lemma sig2pubkey_point:
  assumes "sig2pubkey dp this = Inr pk"
  shows "\<exists>q. pk_point pk = Some q"
proof -
  obtain sg where sg: "ec_sig this = Some sg"
    using assms by (cases "ec_sig this") (simp_all add: sig2pubkey_def)
  obtain hashbuf where hb: "ec_hashbuf this = Some hashbuf"
    using assms sg by (cases "ec_hashbuf this") (simp_all add: sig2pubkey_def Let_def split: if_splits)
  show ?thesis
    using assms sg hb
    by (simp add: sig2pubkey_def Let_def split: if_splits sum.splits) auto
qed

lemma calcrecovery_loop_from:
  assumes kp: "ec_keypair this = Some kp" and pub: "kp_pubkey kp = Some pub"
    and ex: "pk_point pub = Some expected"
  shows "i \<le> 4 \<Longrightarrow>
     calcrecovery_loop dp (this\<lparr>ec_sig := e0\<rparr>) (sg\<lparr>sig_recovery := r0\<rparr>) i =
       recovery_result this sg pub (find (recovers dp this sg expected) [i..<4])"
proof (induction "4 - i" arbitrary: i e0 r0)
  case 0
  then have "i = 4" by simp
  then show ?case
    by (subst calcrecovery_loop.simps) (simp add: recovery_result_def)
next
  case (Suc n)
  then have i: "i < 4" by simp
  have u: "[i..<4] = i # [Suc i..<4]"
    using i by (simp add: upt_conv_Cons)
  have ih: "calcrecovery_loop dp (this\<lparr>ec_sig := e1\<rparr>) (sg\<lparr>sig_recovery := r1\<rparr>) (Suc i) =
       recovery_result this sg pub (find (recovers dp this sg expected) [Suc i..<4])" for e1 r1
    using Suc(1) [of "Suc i"] Suc(2) i by simp
  show ?case
  proof (cases "recovery_attempt dp this sg i")
    case (Inl err)
    then have "\<not> recovers dp this sg expected i"
      by (simp add: recovers_def)
    then show ?thesis
      using Inl i ih
      by (subst calcrecovery_loop.simps) (simp add: u recovery_attempt_def Let_def)
  next
    case (Inr Qprime)
    obtain q where q: "pk_point Qprime = Some q"
      using sig2pubkey_point [OF Inr [unfolded recovery_attempt_def]] by blast
    show ?thesis
    proof (cases "q = expected")
      case True
      then have "recovers dp this sg expected i"
        using Inr q by (simp add: recovers_def)
      then show ?thesis
        using Inr i q True kp pub ex
        by (subst calcrecovery_loop.simps)
          (auto simp: u recovery_attempt_def Let_def recovery_result_def point_eq_def
            split: option.splits)
    next
      case False
      then have "\<not> recovers dp this sg expected i"
        using Inr q by (simp add: recovers_def)
      then show ?thesis
        using Inr i q False kp pub ex ih
        by (subst calcrecovery_loop.simps)
          (simp add: u recovery_attempt_def Let_def point_eq_def)
    qed
  qed
qed

lemma pk_validate_flag:
  "pk_validate dp (pk\<lparr>pk_compressed := c\<rparr>) =
     (case pk_validate dp pk of Inl err \<Rightarrow> Inl err | Inr p \<Rightarrow> Inr (p\<lparr>pk_compressed := c\<rparr>))"
  by (simp add: pk_validate_def split: option.splits sum.splits)

lemma sig2pubkey_flag:
  "sig2pubkey dp (this\<lparr>ec_sig := Some (sg\<lparr>sig_compressed := c\<rparr>)\<rparr>) =
     (case sig2pubkey dp (this\<lparr>ec_sig := Some sg\<rparr>) of
        Inl err \<Rightarrow> Inl err
      | Inr pk \<Rightarrow> Inr (pk\<lparr>pk_compressed := c\<rparr>))"
proof (cases "ec_hashbuf this")
  case None
  then show ?thesis by (simp add: sig2pubkey_def Let_def)
next
  case (Some hashbuf)
  show ?thesis
  proof (cases "sig_recovery sg = Some 0 \<or> sig_recovery sg = Some 1 \<or> sig_recovery sg = Some 2 \<or>
                sig_recovery sg = Some 3")
    case False
    then show ?thesis by (simp add: sig2pubkey_def Let_def)
  next
    case True
    define x where "x = (if the (sig_recovery sg) div 2 \<noteq> 0 then sig_r sg + getN dp else sig_r sg)"
    show ?thesis
    proof (cases "Point_fromX dp (the (sig_recovery sg) mod 2 = 1) x")
      case (Inl err)
      then show ?thesis using Some True by (auto simp: sig2pubkey_def Let_def x_def)
    next
      case (Inr R)
      show ?thesis
      proof (cases "isInfinity (mul dp R (getN dp))")
        case False
        then show ?thesis using Some True Inr by (auto simp: sig2pubkey_def Let_def x_def)
      next
        case inf: True
        let ?Q = "mul dp (add dp (mul dp R (sig_s sg))
           (mul dp (getG dp) (bn_umod (- bn_fromBuffer hashbuf) (getN dp))))
           (invm dp (sig_r sg) (getN dp))"
        have v: "pk_validate dp \<lparr>pk_point = Some ?Q, pk_compressed = c'\<rparr> =
             (if isInfinity ?Q then Inl (Error ''point: Point cannot be equal to Infinity'')
              else if point_eq ?Q (Point_new dp 0 0) then Inl (Error ''point: Point cannot be equal to 0, 0'')
              else (case point_validate dp ?Q of Inl e \<Rightarrow> Inl e
                    | Inr u \<Rightarrow> Inr \<lparr>pk_point = Some ?Q, pk_compressed = c'\<rparr>))" for c'
          by (simp add: pk_validate_def)
        have l: "sig2pubkey dp (this\<lparr>ec_sig := Some sg'\<rparr>) =
            (case pk_validate dp \<lparr>pk_point = Some ?Q, pk_compressed = sig_compressed sg'\<rparr> of
               Inl err \<Rightarrow> Inl err
             | Inr pk \<Rightarrow> Inr \<lparr>pk_point = Some ?Q, pk_compressed = sig_compressed sg'\<rparr>)"
          if "sig_r sg' = sig_r sg" "sig_s sg' = sig_s sg" "sig_recovery sg' = sig_recovery sg" for sg'
          using Some True Inr inf that
          by (auto simp: sig2pubkey_def Let_def x_def)
        show ?thesis
          unfolding l [of "sg\<lparr>sig_compressed := c\<rparr>", simplified] l [of sg, simplified] v
          by (simp split: sum.split)
      qed
    qed
  qed
qed

lemma find_upt_lt: "find P [i..<n] = Some j \<Longrightarrow> i \<le> j \<and> j < n \<and> P j"
  by (auto simp: find_Some_iff)

lemma sig2pubkey_cong:
  assumes "ec_sig a = ec_sig b" and "ec_hashbuf a = ec_hashbuf b"
  shows "sig2pubkey dp a = sig2pubkey dp b"
  unfolding sig2pubkey_def assms by (rule refl)

lemma static_sig2pubkey:
  assumes "ec_sig this = Some sg" and "ec_hashbuf this = Some h"
  shows "ECDSA_sig2pubkey dp sg h = sig2pubkey dp this"
  unfolding ECDSA_sig2pubkey_def
  by (rule sig2pubkey_cong) (simp_all add: assms ECDSA_new_def)

text \<open>
  C9. For a signature and an expected public key with a point, \<open>calcrecovery\<close> returns
  at the first of the recovery values 0, 1, 2, 3 for which \<open>sig2pubkey\<close> succeeds with
  the expected point, having set \<open>sig.recovery\<close> to that value and \<open>sig.compressed\<close> to
  the key's flag (\<open>true\<close> when the flag is unset); it throws \<open>Unable to find valid recovery
  factor\<close> when no value does. After a return, \<open>sig.recovery\<close> is one of 0, 1, 2, 3 and
  \<open>sig2pubkey\<close>, of the object as of the signature and the digest alone, recovers the
  expected point.
\<close>

theorem calcrecovery_first_matching_recovery:
  assumes sg: "ec_sig this = Some sg" and kp: "ec_keypair this = Some kp"
    and pub: "kp_pubkey kp = Some pub" and ex: "pk_point pub = Some expected"
  shows "calcrecovery dp this =
           recovery_result this sg pub (find (recovers dp this sg expected) [0, 1, 2, 3]) \<and>
         (\<forall>this'. calcrecovery dp this = Inr this' \<longrightarrow>
            (\<exists>sg' pk. ec_sig this' = Some sg' \<and>
               sig_recovery sg' \<in> {Some 0, Some 1, Some 2, Some 3} \<and>
               sig_compressed sg' = Some (case pk_compressed pub of None \<Rightarrow> True | Some c \<Rightarrow> c) \<and>
               sig2pubkey dp this' = Inr pk \<and> pk_point pk = Some expected \<and>
               (\<forall>h. ec_hashbuf this = Some h \<longrightarrow> ECDSA_sig2pubkey dp sg' h = Inr pk)))"
proof -
  have l: "[0..<4] = [0, 1, 2, 3::nat]"
    by (simp add: upt_conv_Cons)
  have t: "this\<lparr>ec_sig := ec_sig this\<rparr> = this" "sg\<lparr>sig_recovery := sig_recovery sg\<rparr> = sg"
    by simp_all
  have a: "calcrecovery dp this =
           recovery_result this sg pub (find (recovers dp this sg expected) [0, 1, 2, 3])"
    using calcrecovery_loop_from [OF kp pub ex, where i = 0 and dp = dp and ?e0.0 = "ec_sig this"
        and sg = sg and ?r0.0 = "sig_recovery sg"] sg
    unfolding t l by (simp add: calcrecovery_def)
  have b: "\<exists>sg' pk. ec_sig this' = Some sg' \<and>
               sig_recovery sg' \<in> {Some 0, Some 1, Some 2, Some 3} \<and>
               sig_compressed sg' = Some (case pk_compressed pub of None \<Rightarrow> True | Some c \<Rightarrow> c) \<and>
               sig2pubkey dp this' = Inr pk \<and> pk_point pk = Some expected \<and>
               (\<forall>h. ec_hashbuf this = Some h \<longrightarrow> ECDSA_sig2pubkey dp sg' h = Inr pk)"
    if r: "calcrecovery dp this = Inr this'" for this'
  proof -
    define c where "c = (case pk_compressed pub of None \<Rightarrow> True | Some c \<Rightarrow> c)"
    obtain i where f: "find (recovers dp this sg expected) [0..<4] = Some i"
      and this': "this' = this\<lparr>ec_sig := Some (sg\<lparr>sig_recovery := Some (int i),
                                                   sig_compressed := Some c\<rparr>)\<rparr>"
      using r a unfolding l [symmetric] c_def
      by (cases "find (recovers dp this sg expected) [0..<4]") (auto simp: recovery_result_def)
    have i: "i < 4" and m: "recovers dp this sg expected i"
      using find_upt_lt [OF f] by simp_all
    obtain Q where Q: "recovery_attempt dp this sg i = Inr Q" and Qp: "pk_point Q = Some expected"
      using m by (auto simp: recovers_def split: sum.splits)
    have rec: "sig2pubkey dp this' = Inr (Q\<lparr>pk_compressed := Some c\<rparr>)"
      unfolding this'
      using sig2pubkey_flag [where dp = dp and this = this
          and sg = "sg\<lparr>sig_recovery := Some (int i)\<rparr>" and c = "Some c"] Q
      by (simp add: recovery_attempt_def)
    have st: "ECDSA_sig2pubkey dp (sg\<lparr>sig_recovery := Some (int i), sig_compressed := Some c\<rparr>) h =
                Inr (Q\<lparr>pk_compressed := Some c\<rparr>)"
      if "ec_hashbuf this = Some h" for h
      using static_sig2pubkey [of this' "sg\<lparr>sig_recovery := Some (int i), sig_compressed := Some c\<rparr>" h dp]
        that rec by (simp add: this')
    have "int i \<in> {0, 1, 2, 3}"
      using i by auto
    then show ?thesis
      using this' Qp c_def rec st by auto
  qed
  show ?thesis using a b by blast
qed


lemma hash_example: "bn_fromBuffer (replicate 31 0 @ [0x21]) = 33"
  by (simp add: bn_fromBuffer_append bn_fromBuffer_zeros) (simp add: bn_fromBuffer_def)

lemma attempt0:
  "recovery_attempt (small_curve hm) recovery_example
     \<lparr>sig_r = 4, sig_s = 10, sig_recovery = None, sig_compressed = None\<rparr> 0 = Inl (Error ''invalid point'')"
  by code_simp

lemma attempt1:
  "recovery_attempt (small_curve hm) recovery_example
     \<lparr>sig_r = 4, sig_s = 10, sig_recovery = None, sig_compressed = None\<rparr> 1 = Inl (Error ''invalid point'')"
  by code_simp

lemma attempt2:
  "recovery_attempt (small_curve hm) recovery_example
     \<lparr>sig_r = 4, sig_s = 10, sig_recovery = None, sig_compressed = None\<rparr> 2 =
       Inr \<lparr>pk_point = Some (Affine 32 3), pk_compressed = None\<rparr>"
  by code_simp

lemma attempt3:
  "recovery_attempt (small_curve hm) recovery_example
     \<lparr>sig_r = 4, sig_s = 10, sig_recovery = None, sig_compressed = None\<rparr> 3 =
       Inr \<lparr>pk_point = Some (Affine 25 18), pk_compressed = None\<rparr>"
  by code_simp

lemma recovered_example:
  "sig2pubkey (small_curve hm)
     (recovery_example\<lparr>ec_sig := Some \<lparr>sig_r = 4, sig_s = 10, sig_recovery = Some 3,
                                          sig_compressed = Some True\<rparr>\<rparr>) =
     Inr \<lparr>pk_point = Some (Affine 25 18), pk_compressed = Some True\<rparr>"
  by code_simp

theorem calcrecovery_example:
  "\<forall>hm. calcrecovery (small_curve hm) recovery_example =
       Inr (recovery_example\<lparr>ec_sig := Some \<lparr>sig_r = 4, sig_s = 10, sig_recovery = Some 3,
                                               sig_compressed = Some True\<rparr>\<rparr>) \<and>
     sig2pubkey (small_curve hm)
       (recovery_example\<lparr>ec_sig := Some \<lparr>sig_r = 4, sig_s = 10, sig_recovery = Some 3,
                                            sig_compressed = Some True\<rparr>\<rparr>) =
       Inr \<lparr>pk_point = Some (Affine 25 18), pk_compressed = Some True\<rparr>"
proof
  fix hm
  let ?sg = "\<lparr>sig_r = 4, sig_s = 10, sig_recovery = None, sig_compressed = None\<rparr>"
  let ?kp = "\<lparr>kp_privkey = None,
              kp_pubkey = Some \<lparr>pk_point = Some (Affine 25 18), pk_compressed = None\<rparr>\<rparr>"
  let ?pub = "\<lparr>pk_point = Some (Affine 25 18), pk_compressed = None\<rparr>"
  have sg: "ec_sig recovery_example = Some ?sg"
    and kp: "ec_keypair recovery_example = Some ?kp"
    by (simp_all add: recovery_example_def ECDSA_new_def)
  have pub: "kp_pubkey ?kp = Some ?pub" and ex: "pk_point ?pub = Some (Affine 25 18)"
    by simp_all
  have f: "find (recovers (small_curve hm) recovery_example ?sg (Affine 25 18)) [0, 1, 2, 3] = Some 3"
    by (simp add: recovers_def attempt0 attempt1 [unfolded One_nat_def] attempt2 attempt3)
  have "calcrecovery (small_curve hm) recovery_example =
       Inr (recovery_example\<lparr>ec_sig := Some \<lparr>sig_r = 4, sig_s = 10, sig_recovery = Some 3,
                                               sig_compressed = Some True\<rparr>\<rparr>)"
    using calcrecovery_first_matching_recovery [OF sg kp pub ex, of "small_curve hm"]
    unfolding f by (simp add: recovery_result_def)
  then show "calcrecovery (small_curve hm) recovery_example =
       Inr (recovery_example\<lparr>ec_sig := Some \<lparr>sig_r = 4, sig_s = 10, sig_recovery = Some 3,
                                               sig_compressed = Some True\<rparr>\<rparr>) \<and>
     sig2pubkey (small_curve hm)
       (recovery_example\<lparr>ec_sig := Some \<lparr>sig_r = 4, sig_s = 10, sig_recovery = Some 3,
                                            sig_compressed = Some True\<rparr>\<rparr>) =
       Inr \<lparr>pk_point = Some (Affine 25 18), pk_compressed = Some True\<rparr>"
    using recovered_example by simp
qed

text \<open>
  The recovery example end to end, on the small curve: the public key of the private
  key 7 is \<open>(25, 18)\<close>; with a hash collaborator that always answers \<open>00 ... 00 03\<close>, so
  that \<open>deterministicK\<close> gives \<open>k = 3\<close>, \<open>ECDSA.sign\<close> signs the digest \<open>00 ... 00 21\<close> with
  \<open>(r, s) = (4, 10)\<close>; the signature verifies against the public key, and no longer
  verifies once the digest is changed.
\<close>

lemma pubkey_small_curve_example: "mul (small_curve hm) (getG (small_curve hm)) 7 = Affine 25 18"
  by code_simp

lemma sign_small_curve_example:
  "ECDSA_sign (small_curve (\<lambda>data key. replicate 31 0 @ [0x03])) 1 (replicate 31 0 @ [0x21])
     \<lparr>kp_privkey = Some \<lparr>privkey_bn = 7, privkey_compressed = None\<rparr>,
      kp_pubkey = Some \<lparr>pk_point = Some (Affine 25 18), pk_compressed = None\<rparr>\<rparr> None =
   Some (Inr \<lparr>sig_r = 4, sig_s = 10, sig_recovery = None, sig_compressed = None\<rparr>)"
  by code_simp

lemma verify_small_curve_example:
  "ECDSA_verify (small_curve hm) (replicate 31 0 @ [0x21])
     \<lparr>sig_r = 4, sig_s = 10, sig_recovery = Some 3, sig_compressed = Some True\<rparr>
     \<lparr>pk_point = Some (Affine 25 18), pk_compressed = None\<rparr> None = Inr (Some True)"
  by code_simp

lemma verify_small_curve_example_other_digest:
  "ECDSA_verify (small_curve hm) (replicate 31 0 @ [0x22])
     \<lparr>sig_r = 4, sig_s = 10, sig_recovery = Some 3, sig_compressed = Some True\<rparr>
     \<lparr>pk_point = Some (Affine 25 18), pk_compressed = None\<rparr> None = Inr (Some False)"
  by code_simp

end
